theory Spec2Isabelle
  imports Complex_Main "HOL-Library.Word"
begin

section \<open>Errors\<close>

text \<open>
  Every exception the modelled code can raise is a value. \<open>KeyError\<close> is Python's
  failed \<open>dict\<close> lookup of a label (the specification calls it \<open>UnknownLabelError\<close>),
  \<open>IndexError\<close> a list index out of range, \<open>ValueError\<close> and \<open>TypeError\<close> the errors of
  the array and container libraries, \<open>ObjectNotFound\<close> the container library's failed
  lookup of a dataset name. The last two constructors are the error kinds the
  specification gives to the Schema Merger.
\<close>

datatype error =
    KeyError int
  | IndexError
  | ValueError string
  | TypeError
  | ObjectNotFound string
  | ShapeMismatchError "nat list" "nat list"
  | SchemaConflictError string

definition bindE :: "error + 'a \<Rightarrow> ('a \<Rightarrow> error + 'b) \<Rightarrow> error + 'b" where
  "bindE m f = (case m of Inl e \<Rightarrow> Inl e | Inr x \<Rightarrow> f x)"

section \<open>The pseudorandom generator\<close>

text \<open>
  \<^verbatim>\<open>np.random.default_rng(seed)\<close> belongs to the array library, not to this repository.
  Its bit generator is a parameter of the model: a state type \<open>'g\<close>, the state derived
  from an integer seed, the state derived from operating-system entropy \<open>'e\<close> (what
  \<^verbatim>\<open>default_rng()\<close> without a seed uses), the next 64 raw bits and the next standard
  normal variate. The distributions the code calls are derived from these:
  a double in \<open>[0, 1)\<close> is the upper 53 bits scaled by \<open>2^-53\<close>; a bounded integer is
  the raw value reduced into the range (the library's rejection sampling is abstracted:
  only the range of the result is kept); a normal variate with location and scale is
  \<open>loc + scale * z\<close>. Arrays are filled in row-major order, one draw per element.
\<close>

record ('g, 'e) bit_generator =
  from_seed :: "nat \<Rightarrow> 'g"
  from_entropy :: "'e \<Rightarrow> 'g"
  next_uint64 :: "'g \<Rightarrow> 64 word \<times> 'g"
  next_gauss :: "'g \<Rightarrow> real \<times> 'g"

definition default_rng :: "('g, 'e) bit_generator \<Rightarrow> 'e \<Rightarrow> nat option \<Rightarrow> 'g" where
  "default_rng G e seed = (case seed of None \<Rightarrow> from_entropy G e | Some s \<Rightarrow> from_seed G s)"

definition next_double :: "('g, 'e) bit_generator \<Rightarrow> 'g \<Rightarrow> real \<times> 'g" where
  "next_double G g = (case next_uint64 G g of (w, g') \<Rightarrow> (real (unat (drop_bit 11 w)) / 2 ^ 53, g'))"

definition next_bounded :: "('g, 'e) bit_generator \<Rightarrow> nat \<Rightarrow> 'g \<Rightarrow> nat \<times> 'g" where
  "next_bounded G n g = (case next_uint64 G g of (w, g') \<Rightarrow> (unat w mod n, g'))"

fun draws :: "('g \<Rightarrow> 'a \<times> 'g) \<Rightarrow> nat \<Rightarrow> 'g \<Rightarrow> 'a list \<times> 'g" where
  "draws f 0 g = ([], g)"
| "draws f (Suc n) g =
     (case f g of (x, g1) \<Rightarrow> (case draws f n g1 of (xs, g2) \<Rightarrow> (x # xs, g2)))"

text \<open>
  An unstructured array of doubles of shape \<open>nd_lead @ [nd_width]\<close>: the vectors along
  the last axis, in row-major order.
\<close>

record ndarray =
  nd_lead :: "nat list"
  nd_width :: nat
  nd_rows :: "real list list"

text \<open>\<^verbatim>\<open>rng.random(lead + (width,))\<close>\<close>

definition rng_random ::
  "('g, 'e) bit_generator \<Rightarrow> 'g \<Rightarrow> nat list \<Rightarrow> nat \<Rightarrow> ndarray \<times> 'g" where
  "rng_random G g lead width =
     (case draws (draws (next_double G) width) (prod_list lead) g of
        (rows, g') \<Rightarrow> (\<lparr>nd_lead = lead, nd_width = width, nd_rows = rows\<rparr>, g'))"

text \<open>\<^verbatim>\<open>rng.choice(pop, size=shp)\<close>, flattened; \<open>pop\<close> is a non-empty literal at every call.\<close>

definition rng_choice ::
  "('g, 'e) bit_generator \<Rightarrow> 'g \<Rightarrow> 'a list \<Rightarrow> nat list \<Rightarrow> 'a list \<times> 'g" where
  "rng_choice G g pop shp =
     (case draws (next_bounded G (length pop)) (prod_list shp) g of
        (idx, g') \<Rightarrow> (map (\<lambda>i. pop ! i) idx, g'))"

text \<open>\<^verbatim>\<open>rng.integers(low, high, size=shp)\<close>, flattened; \<open>low < high\<close> at every call.\<close>

definition rng_integers ::
  "('g, 'e) bit_generator \<Rightarrow> 'g \<Rightarrow> int \<Rightarrow> int \<Rightarrow> nat list \<Rightarrow> int list \<times> 'g" where
  "rng_integers G g low high shp =
     (case draws (next_bounded G (nat (high - low))) (prod_list shp) g of
        (ks, g') \<Rightarrow> (map (\<lambda>k. low + int k) ks, g'))"

text \<open>One row of \<^verbatim>\<open>rng.normal(loc=loc, scale=scale, size=(count, len(loc)))\<close>.\<close>

fun normal_row :: "('g, 'e) bit_generator \<Rightarrow> real \<Rightarrow> real list \<Rightarrow> 'g \<Rightarrow> real list \<times> 'g" where
  "normal_row G scale [] g = ([], g)"
| "normal_row G scale (m # ms) g =
     (case next_gauss G g of (z, g1) \<Rightarrow>
        (case normal_row G scale ms g1 of (xs, g2) \<Rightarrow> ((m + scale * z) # xs, g2)))"

definition rng_normal ::
  "('g, 'e) bit_generator \<Rightarrow> 'g \<Rightarrow> real list \<Rightarrow> real \<Rightarrow> nat \<Rightarrow> real list list \<times> 'g" where
  "rng_normal G g loc scale count = draws (normal_row G scale loc) count g"

section \<open>Record arrays\<close>

text \<open>
  A structured array is kept by columns: its shape and, in schema order, each field's
  name with the column of its values (flattened in row-major order, so of length
  \<open>prod_list shape\<close>). The element type of a field is the kind of its column.
  A double is an exact real: the rounding of double arithmetic is not modelled. An
  \<open>f4\<close> value is a real that single precision represents: every conversion to \<open>f4\<close> and
  every operation on \<open>f4\<close> values rounds its exact result by \<open>f4\<close> below.
  \<open>i4\<close> values are integers; every value the code stores is far inside the 32-bit range.
\<close>

datatype scalar_kind = F4 | I4 | B1

datatype column = FloatCol "real list" | IntCol "int list" | BoolCol "bool list"

record sarray =
  shape :: "nat list"
  columns :: "(string \<times> column) list"

fun kind_of :: "column \<Rightarrow> scalar_kind" where
  "kind_of (FloatCol xs) = F4"
| "kind_of (IntCol xs) = I4"
| "kind_of (BoolCol xs) = B1"

fun col_len :: "column \<Rightarrow> nat" where
  "col_len (FloatCol xs) = length xs"
| "col_len (IntCol xs) = length xs"
| "col_len (BoolCol xs) = length xs"

definition names :: "sarray \<Rightarrow> string list" where
  "names a = map fst (columns a)"

definition dtype :: "sarray \<Rightarrow> (string \<times> scalar_kind) list" where
  "dtype a = map (\<lambda>(n, c). (n, kind_of c)) (columns a)"

text \<open>
  Rounding to single precision (IEEE 754 binary32, to nearest, ties to even). A nonzero
  \<open>x\<close> with \<open>2^e \<le> \<bar>x\<bar> < 2^(e+1)\<close> is rounded to the nearest multiple of \<open>2^(e-23)\<close>, of
  two equally near ones to the even multiple; below \<open>2^(-126)\<close> (the subnormal numbers)
  the multiples are those of \<open>2^(-149)\<close>. Overflow to infinity is left out: every value
  the code stores in an \<open>f4\<close> field is below \<open>2^19\<close> in magnitude.
\<close>

definition round_even :: "real \<Rightarrow> int" where
  "round_even y =
     (let n = \<lfloor>y\<rfloor>; r = y - of_int n
      in if r < 1 / 2 then n else if 1 / 2 < r then n + 1 else if even n then n else n + 1)"

definition f4_exponent :: "real \<Rightarrow> int" where
  "f4_exponent x = max \<lfloor>log 2 \<bar>x\<bar>\<rfloor> (- 126)"

definition f4_quantum :: "real \<Rightarrow> real" where
  "f4_quantum x = 2 powr of_int (f4_exponent x - 23)"

definition f4 :: "real \<Rightarrow> real" where
  "f4 x = (if x = 0 then 0 else of_int (round_even (x / f4_quantum x)) * f4_quantum x)"

text \<open>C-style conversion of a double to an integer: truncation towards zero.\<close>

definition trunc :: "real \<Rightarrow> int" where
  "trunc x = (if 0 \<le> x then \<lfloor>x\<rfloor> else \<lceil>x\<rceil>)"

fun astype :: "scalar_kind \<Rightarrow> real list \<Rightarrow> column" where
  "astype F4 xs = FloatCol (map f4 xs)"
| "astype I4 xs = IntCol (map trunc xs)"
| "astype B1 xs = BoolCol (map (\<lambda>x. x \<noteq> 0) xs)"

fun as_floats :: "column \<Rightarrow> real list" where
  "as_floats (FloatCol xs) = xs"
| "as_floats (IntCol xs) = map real_of_int xs"
| "as_floats (BoolCol xs) = map (\<lambda>b. if b then 1 else 0) xs"

fun as_ints :: "column \<Rightarrow> int list" where
  "as_ints (IntCol xs) = xs"
| "as_ints (FloatCol xs) = map trunc xs"
| "as_ints (BoolCol xs) = map (\<lambda>b. if b then 1 else 0) xs"

text \<open>
  Assignment into a field converts the values to the field's element type; values that
  have that type already are copied.
\<close>

fun cast_col :: "scalar_kind \<Rightarrow> column \<Rightarrow> column" where
  "cast_col F4 (FloatCol xs) = FloatCol xs"
| "cast_col F4 (IntCol xs) = FloatCol (map (\<lambda>x. f4 (of_int x)) xs)"
| "cast_col F4 (BoolCol xs) = FloatCol (map (\<lambda>b. if b then 1 else 0) xs)"
| "cast_col I4 c = IntCol (as_ints c)"
| "cast_col B1 (BoolCol xs) = BoolCol xs"
| "cast_col B1 (IntCol xs) = BoolCol (map (\<lambda>x. x \<noteq> 0) xs)"
| "cast_col B1 (FloatCol xs) = BoolCol (map (\<lambda>x. x \<noteq> 0) xs)"

text \<open>
  \<^verbatim>\<open>unstructured_to_structured(arr, dtype)\<close>: the last axis of \<open>arr\<close> becomes the fields;
  it fails when the length of that axis is not the number of fields.
\<close>

definition u2s :: "ndarray \<Rightarrow> (string \<times> scalar_kind) list \<Rightarrow> error + sarray" where
  "u2s arr dt =
     (if nd_width arr \<noteq> length dt then Inl (ValueError ''field count mismatch'')
      else Inr \<lparr>shape = nd_lead arr,
                columns = map (\<lambda>(j, (name, kind)). (name, astype kind (map (\<lambda>r. r ! j) (nd_rows arr))))
                             (enumerate 0 dt)\<rparr>)"

text \<open>\<^verbatim>\<open>a[name]\<close>\<close>

definition get_field :: "sarray \<Rightarrow> string \<Rightarrow> error + column" where
  "get_field a name =
     (case map_of (columns a) name of
        None \<Rightarrow> Inl (ValueError ''no field of name'')
      | Some c \<Rightarrow> Inr c)"

fun replace_field :: "string \<Rightarrow> column \<Rightarrow> (string \<times> column) list \<Rightarrow> (string \<times> column) list" where
  "replace_field n c [] = []"
| "replace_field n c ((m, d) # fs) =
     (if m = n then (m, c) # fs else (m, d) # replace_field n c fs)"

text \<open>\<^verbatim>\<open>a[name] = values\<close>, for an array of values of the shape of \<open>a\<close>\<close>

definition set_field :: "sarray \<Rightarrow> string \<Rightarrow> column \<Rightarrow> error + sarray" where
  "set_field a name c =
     (case map_of (columns a) name of
        None \<Rightarrow> Inl (ValueError ''no field of name'')
      | Some old \<Rightarrow>
          if col_len c \<noteq> col_len old then Inl (ValueError ''could not broadcast'')
          else Inr (a\<lparr>columns := replace_field name (cast_col (kind_of old) c) (columns a)\<rparr>))"

text \<open>\<^verbatim>\<open>a[name] = v\<close>, for a scalar integer \<open>v\<close>\<close>

definition fill_field :: "sarray \<Rightarrow> string \<Rightarrow> int \<Rightarrow> error + sarray" where
  "fill_field a name v =
     bindE (get_field a name) (\<lambda>old. set_field a name (IntCol (replicate (col_len old) v)))"

text \<open>
  \<^verbatim>\<open>a[name] *= c\<close> for a Python float \<open>c\<close>: in place, so the product must be storable
  in the field's own type; for an integer or boolean field the library refuses the cast.
  On an \<open>f4\<close> field the product is a single precision operation: the scalar is taken to
  single precision and the product is rounded.
\<close>

definition imul_field :: "sarray \<Rightarrow> string \<Rightarrow> real \<Rightarrow> error + sarray" where
  "imul_field a name c =
     bindE (get_field a name) (\<lambda>old.
       case old of
         FloatCol xs \<Rightarrow> set_field a name (FloatCol (map (\<lambda>x. f4 (x * f4 c)) xs))
       | _ \<Rightarrow> Inl TypeError)"

subsection \<open>The Schema Merger\<close>

text \<open>
  Modelled from the spec: \<^verbatim>\<open>join_structured_arrays\<close> is imported from \<^verbatim>\<open>ftag.hdf5\<close>,
  which is not among the sources. Section 4.1 of the specification: the inputs must
  share one shape, else \<open>ShapeMismatchError\<close> naming the conflicting shapes; a field
  name occurring twice across the inputs is a \<open>SchemaConflictError\<close> naming it; otherwise
  the result has the common shape and the concatenation, in input order, of the
  inputs' schemas, with every value copied unchanged. The shapes are checked first.
  For no input at all the specification says nothing; the empty concatenation is taken.
\<close>

fun first_dup :: "'a list \<Rightarrow> 'a option" where
  "first_dup [] = None"
| "first_dup (x # xs) = (if x \<in> set xs then Some x else first_dup xs)"

fun join_structured_arrays :: "sarray list \<Rightarrow> error + sarray" where
  "join_structured_arrays [] = Inr \<lparr>shape = [], columns = []\<rparr>"
| "join_structured_arrays (a # as) =
     (case find (\<lambda>b. shape b \<noteq> shape a) as of
        Some b \<Rightarrow> Inl (ShapeMismatchError (shape a) (shape b))
      | None \<Rightarrow>
          (case first_dup (concat (map names (a # as))) of
             Some n \<Rightarrow> Inl (SchemaConflictError n)
           | None \<Rightarrow> Inr \<lparr>shape = shape a, columns = concat (map columns (a # as))\<rparr>))"

section \<open>The mock data of \<^verbatim>\<open>ftag/mock.py\<close>\<close>

definition JET_VARS :: "(string \<times> scalar_kind) list" where
  "JET_VARS =
    [(''pt'', F4),
     (''eta'', F4),
     (''abs_eta'', F4),
     (''mass'', F4),
     (''pt_btagJes'', F4),
     (''eta_btagJes'', F4),
     (''n_tracks'', I4),
     (''HadronConeExclTruthLabelID'', I4),
     (''HadronConeExclTruthLabelPt'', F4),
     (''R10TruthLabel_R22v1'', I4),
     (''n_truth_promptLepton'', I4),
     (''flavour_label'', I4)]"

definition TRACK_VARS :: "(string \<times> scalar_kind) list" where
  "TRACK_VARS =
    [(''d0'', F4),
     (''z0SinTheta'', F4),
     (''dphi'', F4),
     (''deta'', F4),
     (''qOverP'', F4),
     (''IP3D_signed_d0_significance'', F4),
     (''IP3D_signed_z0_significance'', F4),
     (''phiUncertainty'', F4),
     (''thetaUncertainty'', F4),
     (''qOverPUncertainty'', F4),
     (''numberOfPixelHits'', I4),
     (''numberOfSCTHits'', I4),
     (''numberOfInnermostPixelLayerHits'', I4),
     (''numberOfNextToInnermostPixelLayerHits'', I4),
     (''numberOfInnermostPixelLayerSharedHits'', I4),
     (''numberOfInnermostPixelLayerSplitHits'', I4),
     (''numberOfPixelSharedHits'', I4),
     (''numberOfPixelSplitHits'', I4),
     (''numberOfSCTSharedHits'', I4),
     (''numberOfPixelHoles'', I4),
     (''numberOfSCTHoles'', I4)]"

subsection \<open>\<^verbatim>\<open>mock_tracks\<close>\<close>

definition mock_tracks ::
  "('g, 'e) bit_generator \<Rightarrow> 'e \<Rightarrow> nat \<Rightarrow> nat \<Rightarrow> error + sarray" where
  "mock_tracks G e num_jets num_tracks =
     (let rng = default_rng G e (Some 42) in
      case rng_random G rng [num_jets, num_tracks] (length TRACK_VARS) of (arr, rng) \<Rightarrow>
      bindE (u2s arr TRACK_VARS) (\<lambda>tracks.
      bindE (imul_field tracks ''d0'' 5) (\<lambda>tracks.
      case rng_integers G rng 0 3 [num_jets, num_tracks] of (pix, rng) \<Rightarrow>
      bindE (set_field tracks ''numberOfPixelSharedHits'' (IntCol pix)) (\<lambda>tracks.
      case rng_integers G rng 0 3 [num_jets, num_tracks] of (sct, rng) \<Rightarrow>
      bindE (set_field tracks ''numberOfSCTSharedHits'' (IntCol sct)) (\<lambda>tracks.
      case rng_choice G rng [True, False] [num_jets, num_tracks] of (valid, rng) \<Rightarrow>
      join_structured_arrays
        [tracks, \<lparr>shape = [num_jets, num_tracks], columns = [(''valid'', BoolCol valid)]\<rparr>])))))"

subsection \<open>\<^verbatim>\<open>get_mock_scores\<close>\<close>

definition means :: "real list list" where
  "means =
    [[2, 0, 0, 0],
     [0, 1, 0, 0],
     [0, 0, 7 / 2, 0],
     [0, 0, 0, 1]]"

definition label_dict :: "bool \<Rightarrow> (string \<times> int) list" where
  "label_dict is_xbb =
     (if \<not> is_xbb then [(''u'', 0), (''c'', 4), (''b'', 5), (''tau'', 15)]
      else [(''hbb'', 11), (''hcc'', 12), (''top'', 1), (''qcd'', 10)])"

text \<open>\<^verbatim>\<open>dict(zip(label_dict.values(), means))\<close>; the keys are distinct.\<close>

definition label_mapping :: "bool \<Rightarrow> int \<rightharpoonup> real list" where
  "label_mapping is_xbb = map_of (zip (map snd (label_dict is_xbb)) means)"

definition scales :: "real list" where
  "scales = [1, 5 / 2, 5, 1]"

text \<open>\<^verbatim>\<open>xs[i]\<close> on a Python list, for \<open>i \<ge> 0\<close>\<close>

definition py_index :: "'a list \<Rightarrow> nat \<Rightarrow> error + 'a" where
  "py_index xs i = (if i < length xs then Inr (xs ! i) else Inl IndexError)"

text \<open>
  \<^verbatim>\<open>np.unique(labels, return_counts=True)\<close>: the distinct values in ascending order,
  each with the number of its occurrences.
\<close>

definition np_unique :: "int list \<Rightarrow> int list" where
  "np_unique labels = sort (remdups labels)"

definition unique_counts :: "int list \<Rightarrow> (int \<times> nat) list" where
  "unique_counts labels = map (\<lambda>l. (l, count_list labels l)) (np_unique labels)"

text \<open>
  \<^verbatim>\<open>scores[mask] = block\<close>: the rows selected by the mask take the rows of the block, in
  order. At its one call the block has as many rows as the mask selects.
\<close>

fun assign_mask :: "bool list \<Rightarrow> 'a list \<Rightarrow> 'a list \<Rightarrow> 'a list" where
  "assign_mask (m # ms) vs (s # ss) =
     (if m then (case vs of [] \<Rightarrow> s # ss | v # vs' \<Rightarrow> v # assign_mask ms vs' ss)
      else s # assign_mask ms vs ss)"
| "assign_mask [] vs ss = ss"
| "assign_mask ms vs [] = []"

text \<open>
  The loop of lines 77 to 80, \<open>i\<close> being the counter of \<^verbatim>\<open>enumerate\<close>. The arguments of
  \<^verbatim>\<open>rng.normal\<close> are evaluated from left to right: the lookup of the label comes before
  the indexing of \<open>scales\<close>.
\<close>

fun scores_loop ::
  "('g, 'e) bit_generator \<Rightarrow> (int \<rightharpoonup> real list) \<Rightarrow> int list \<Rightarrow> nat \<Rightarrow> (int \<times> nat) list \<Rightarrow>
   'g \<Rightarrow> real list list \<Rightarrow> error + real list list" where
  "scores_loop G lm labels i [] rng scores = Inr scores"
| "scores_loop G lm labels i ((label, count) # rest) rng scores =
     (case lm label of
        None \<Rightarrow> Inl (KeyError label)
      | Some loc \<Rightarrow>
          bindE (py_index scales i) (\<lambda>scale.
            case rng_normal G rng loc scale count of (block, rng') \<Rightarrow>
              scores_loop G lm labels (Suc i) rest rng'
                (assign_mask (map (\<lambda>l. l = label) labels) block scores)))"

definition np_zeros :: "nat list \<Rightarrow> nat \<Rightarrow> ndarray" where
  "np_zeros lead width =
     \<lparr>nd_lead = lead, nd_width = width, nd_rows = replicate (prod_list lead) (replicate width 0)\<rparr>"

text \<open>Lines 73 to 80 of \<^verbatim>\<open>get_mock_scores\<close>: the scores before normalisation.\<close>

definition raw_scores ::
  "('g, 'e) bit_generator \<Rightarrow> 'e \<Rightarrow> int list \<Rightarrow> bool \<Rightarrow> error + ndarray" where
  "raw_scores G e labels is_xbb =
     (let rng = default_rng G e (Some 42);
          nclass = length (label_dict is_xbb);
          scores = np_zeros [length labels] nclass
      in bindE (scores_loop G (label_mapping is_xbb) labels 0 (unique_counts labels) rng
                  (nd_rows scores))
           (\<lambda>rows. Inr (scores\<lparr>nd_rows := rows\<rparr>)))"

text \<open>\<^verbatim>\<open>softmax(x, axis=1)\<close>, row by row, over exact reals.\<close>

definition softmax_row :: "real list \<Rightarrow> real list" where
  "softmax_row x =
     (let e_x = map (\<lambda>v. exp (v - Max (set x))) x
      in map (\<lambda>v. v / sum_list e_x) e_x)"

definition softmax :: "ndarray \<Rightarrow> ndarray" where
  "softmax x = x\<lparr>nd_rows := map softmax_row (nd_rows x)\<rparr>"

definition get_mock_scores ::
  "('g, 'e) bit_generator \<Rightarrow> 'e \<Rightarrow> int list \<Rightarrow> bool \<Rightarrow> error + sarray" where
  "get_mock_scores G e labels is_xbb =
     bindE (raw_scores G e labels is_xbb) (\<lambda>scores.
       let scores = softmax scores;
           name = (if is_xbb then ''MockXbbTagger'' else ''MockTagger'');
           cols = map (\<lambda>(x, code). name @ ''_p'' @ x) (label_dict is_xbb)
       in u2s scores (map (\<lambda>name. (name, F4)) cols))"

subsection \<open>\<^verbatim>\<open>mock_jets\<close>\<close>

text \<open>
  \<^verbatim>\<open>jets["eta"]\<close> is an \<open>f4\<close> column, so \<^verbatim>\<open>(jets["eta"] - 0.5) * 6.0\<close> is computed in single
  precision: the difference is rounded, and then the product (\<open>0.5\<close> and \<open>6.0\<close> are
  single precision numbers). \<^verbatim>\<open>np.abs\<close> is exact.
\<close>

definition mock_jets :: "('g, 'e) bit_generator \<Rightarrow> 'e \<Rightarrow> nat \<Rightarrow> error + sarray" where
  "mock_jets G e num_jets =
     (let rng = default_rng G e (Some 42) in
      case rng_random G rng [num_jets] (length JET_VARS) of (arr, rng) \<Rightarrow>
      bindE (u2s arr JET_VARS) (\<lambda>jets.
      case rng_choice G rng [0, 4, 5] [num_jets] of (flavour, rng) \<Rightarrow>
      bindE (set_field jets ''flavour_label'' (IntCol flavour)) (\<lambda>jets.
      bindE (imul_field jets ''pt'' 400000) (\<lambda>jets.
      bindE (imul_field jets ''mass'' 50000) (\<lambda>jets.
      bindE (get_field jets ''eta'') (\<lambda>eta.
      bindE (set_field jets ''eta''
               (FloatCol (map (\<lambda>x. f4 (f4 (x - 1 / 2) * 6)) (as_floats eta)))) (\<lambda>jets.
      bindE (get_field jets ''eta'') (\<lambda>eta.
      bindE (set_field jets ''abs_eta'' (FloatCol (map abs (as_floats eta)))) (\<lambda>jets.
      bindE (fill_field jets ''n_truth_promptLepton'' 0) (\<lambda>jets.
      case rng_choice G rng [0, 4, 5, 15] [num_jets] of (hadron, rng) \<Rightarrow>
      bindE (set_field jets ''HadronConeExclTruthLabelID'' (IntCol hadron)) (\<lambda>jets.
      case rng_choice G rng [1, 10, 11, 12] [num_jets] of (r10, rng) \<Rightarrow>
      bindE (set_field jets ''R10TruthLabel_R22v1'' (IntCol r10)) (\<lambda>jets.
      bindE (get_field jets ''HadronConeExclTruthLabelID'') (\<lambda>labels.
      bindE (get_mock_scores G e (as_ints labels) False) (\<lambda>scores.
      bindE (get_field jets ''R10TruthLabel_R22v1'') (\<lambda>xbb_labels.
      bindE (get_mock_scores G e (as_ints xbb_labels) True) (\<lambda>xbb_scores.
      join_structured_arrays [jets, scores, xbb_scores]))))))))))))))))"

subsection \<open>\<^verbatim>\<open>get_mock_file\<close>\<close>





section \<open>Reading a record array, and concrete values of the parameters\<close>

text \<open>The record \<open>a[i]\<close> (in flattened order), every value read as a real.\<close>

definition record_at :: "sarray \<Rightarrow> nat \<Rightarrow> real list" where
  "record_at a i = map (\<lambda>(name, c). as_floats c ! i) (columns a)"

text \<open>The column of a field, when the array has it.\<close>

definition field :: "sarray \<Rightarrow> string \<Rightarrow> column option" where
  "field a name = map_of (columns a) name"

text \<open>
  A linear congruential bit generator with a crude stand-in for the normal variates:
  one concrete value of the parameter, at which the theorems below are instantiated.
\<close>

definition lcg :: "(nat, nat) bit_generator" where
  "lcg =
     \<lparr>from_seed = (\<lambda>s. s),
      from_entropy = (\<lambda>e. e),
      next_uint64 = (\<lambda>g. (of_nat g, (6364136223846793005 * g + 1442695040888963407) mod 2 ^ 64)),
      next_gauss = (\<lambda>g. (real (g mod 7) - 3, Suc g))\<rparr>"

text \<open>
  A bit generator whose every word has all its bits set, so that every uniform draw is
  the largest double below 1.
\<close>

definition all_ones :: "(nat, nat) bit_generator" where
  "all_ones =
     \<lparr>from_seed = (\<lambda>s. s),
      from_entropy = (\<lambda>e. e),
      next_uint64 = (\<lambda>g. (- 1, Suc g)),
      next_gauss = (\<lambda>g. (0, Suc g))\<rparr>"





text \<open>The names of the four score fields of each taxonomy, as the claims list them.\<close>

definition score_fields :: "bool \<Rightarrow> string list" where
  "score_fields is_xbb =
     (if is_xbb
      then [''MockXbbTagger_phbb'', ''MockXbbTagger_phcc'', ''MockXbbTagger_ptop'',
            ''MockXbbTagger_pqcd'']
      else [''MockTagger_pu'', ''MockTagger_pc'', ''MockTagger_pb'', ''MockTagger_ptau''])"

section \<open>Rounding to single precision\<close>

lemma round_even_int [simp]: "round_even (of_int n) = n"
  by (simp add: round_even_def)

lemma round_even_floor: "\<lfloor>y\<rfloor> \<le> round_even y \<and> round_even y \<le> \<lfloor>y\<rfloor> + 1"
  by (simp add: round_even_def Let_def)

lemma round_even_mono: "y \<le> z \<Longrightarrow> round_even y \<le> round_even z"
proof -
  assume yz: "y \<le> z"
  then have fl: "\<lfloor>y\<rfloor> \<le> \<lfloor>z\<rfloor>" by (rule floor_mono)
  show ?thesis
  proof (cases "\<lfloor>y\<rfloor> = \<lfloor>z\<rfloor>")
    case True
    then show ?thesis using yz by (auto simp add: round_even_def Let_def)
  next
    case False
    then have "\<lfloor>y\<rfloor> + 1 \<le> \<lfloor>z\<rfloor>" using fl by simp
    then show ?thesis using round_even_floor [of y] round_even_floor [of z] by linarith
  qed
qed

lemma round_even_err: "\<bar>of_int (round_even y) - y\<bar> \<le> 1 / 2"
proof -
  have "of_int \<lfloor>y\<rfloor> \<le> y" "y < of_int \<lfloor>y\<rfloor> + 1" by linarith+
  then show ?thesis by (auto simp add: round_even_def Let_def)
qed

lemma round_even_minus: "round_even (- y) = - round_even y"
proof (cases "y = of_int \<lfloor>y\<rfloor>")
  case True
  then obtain n where "y = of_int n" by blast
  then have "- y = of_int (- n)" by simp
  then show ?thesis using \<open>y = of_int n\<close> by (simp only: round_even_int)
next
  case False
  have b: "of_int \<lfloor>y\<rfloor> < y" "y < of_int \<lfloor>y\<rfloor> + 1" using False by linarith+
  have "\<lfloor>- y\<rfloor> = - \<lfloor>y\<rfloor> - 1"
  proof (rule floor_unique)
    show "of_int (- \<lfloor>y\<rfloor> - 1) \<le> - y" by simp linarith
    show "- y < of_int (- \<lfloor>y\<rfloor> - 1) + 1" using b(1) by simp
  qed
  then show ?thesis using b by (auto simp add: round_even_def Let_def)
qed

lemma f4_quantum_pos [simp]: "0 < f4_quantum x"
  by (simp add: f4_quantum_def)

lemma f4_zero [simp]: "f4 0 = 0"
  by (simp add: f4_def)

lemma two_powr_int: "0 \<le> d \<Longrightarrow> (2::real) powr of_int d = 2 ^ nat d"
  by (simp add: powr_real_of_int)

lemma f4_exponent_minus [simp]: "f4_exponent (- x) = f4_exponent x"
  by (simp add: f4_exponent_def)

lemma f4_quantum_minus [simp]: "f4_quantum (- x) = f4_quantum x"
  by (simp add: f4_quantum_def)

lemma f4_minus: "f4 (- x) = - f4 x"
  by (simp add: f4_def round_even_minus)

lemma floor_log_bracket:
  assumes "0 < x"
  shows "2 powr of_int \<lfloor>log 2 x\<rfloor> \<le> x" "x < 2 powr of_int (\<lfloor>log 2 x\<rfloor> + 1)"
  using floor_log_eq_powr_iff [of x 2 "\<lfloor>log 2 x\<rfloor>"] assms by simp_all

lemma f4_exponent_upper:
  assumes "x \<noteq> 0"
  shows "\<bar>x\<bar> < 2 powr of_int (f4_exponent x + 1)"
proof -
  have "\<bar>x\<bar> < 2 powr of_int (\<lfloor>log 2 \<bar>x\<bar>\<rfloor> + 1)"
    using floor_log_bracket(2) [of "\<bar>x\<bar>"] assms by simp
  also have "\<dots> \<le> 2 powr of_int (f4_exponent x + 1)"
    by (simp add: f4_exponent_def)
  finally show ?thesis .
qed

lemma f4_quantum_nonneg [simp]: "0 \<le> f4_quantum x"
  by (simp add: f4_quantum_def)

lemma f4_quantum_nonzero [simp]: "f4_quantum x \<noteq> 0"
  by (simp add: f4_quantum_def)

lemma quantum_times: "2 powr (of_int (f4_exponent x) + 1) = 2 ^ 24 * f4_quantum x"
  by (simp add: f4_quantum_def powr_diff powr_add)

lemma quantum_times': "2 powr of_int (f4_exponent x) = 2 ^ 23 * f4_quantum x"
  by (simp add: f4_quantum_def powr_diff)

lemma f4_scaled_upper:
  assumes "x \<noteq> 0"
  shows "\<bar>x\<bar> / f4_quantum x < 2 ^ 24"
proof -
  have "\<bar>x\<bar> < 2 ^ 24 * f4_quantum x"
    using f4_exponent_upper [OF assms] by (simp add: quantum_times)
  then show ?thesis by (simp add: pos_divide_less_eq)
qed

lemma f4_nonneg: "0 \<le> x \<Longrightarrow> 0 \<le> f4 x"
proof -
  assume x: "0 \<le> x"
  have "0 \<le> x / f4_quantum x" using x by simp
  then have "round_even 0 \<le> round_even (x / f4_quantum x)" by (rule round_even_mono)
  moreover have "round_even 0 = 0" using round_even_int [of 0] by simp
  ultimately show ?thesis by (simp add: f4_def)
qed

lemma f4_upper:
  assumes "0 < x"
  shows "f4 x \<le> 2 powr of_int (f4_exponent x + 1)"
proof -
  have "x / f4_quantum x \<le> 2 ^ 24" using f4_scaled_upper [of x] assms by simp
  then have "round_even (x / f4_quantum x) \<le> round_even (2 ^ 24)" by (rule round_even_mono)
  moreover have "round_even (2 ^ 24) = 2 ^ 24" using round_even_int [of "2 ^ 24"] by simp
  ultimately have "(of_int (round_even (x / f4_quantum x)) :: real) \<le> 2 ^ 24"
    by (metis of_int_le_iff of_int_numeral of_int_power)
  then have "of_int (round_even (x / f4_quantum x)) * f4_quantum x \<le> 2 ^ 24 * f4_quantum x"
    by (simp del: of_int_le_numeral_power_cancel_iff)
  then show ?thesis using assms by (simp add: f4_def quantum_times)
qed

lemma f4_lower:
  assumes "0 < x" "- 126 \<le> \<lfloor>log 2 x\<rfloor>"
  shows "2 powr of_int (f4_exponent x) \<le> f4 x"
proof -
  have e: "f4_exponent x = \<lfloor>log 2 x\<rfloor>" using assms by (simp add: f4_exponent_def)
  have "2 powr of_int (f4_exponent x) \<le> x" using floor_log_bracket(1) [OF assms(1)] e by simp
  then have "2 ^ 23 * f4_quantum x \<le> x" by (simp add: quantum_times')
  then have "2 ^ 23 \<le> x / f4_quantum x" by (simp add: pos_le_divide_eq)
  then have "round_even (2 ^ 23) \<le> round_even (x / f4_quantum x)" by (rule round_even_mono)
  moreover have "round_even (2 ^ 23) = 2 ^ 23" using round_even_int [of "2 ^ 23"] by simp
  ultimately have "(2 ^ 23 :: real) \<le> of_int (round_even (x / f4_quantum x))"
    by (metis of_int_le_iff of_int_numeral of_int_power)
  then have "2 ^ 23 * f4_quantum x \<le> of_int (round_even (x / f4_quantum x)) * f4_quantum x"
    by (simp del: numeral_power_le_of_int_cancel_iff)
  then show ?thesis using assms by (simp add: f4_def quantum_times')
qed

lemma f4_mono_pos:
  assumes "0 < x" "x \<le> y"
  shows "f4 x \<le> f4 y"
proof -
  have y: "0 < y" using assms by simp
  have "log 2 x \<le> log 2 y" using assms by simp
  then have fl: "\<lfloor>log 2 x\<rfloor> \<le> \<lfloor>log 2 y\<rfloor>" by (rule floor_mono)
  then have le: "f4_exponent x \<le> f4_exponent y"
    using assms y by (simp add: f4_exponent_def)
  show ?thesis
  proof (cases "f4_exponent x = f4_exponent y")
    case True
    then have q: "f4_quantum x = f4_quantum y" by (simp add: f4_quantum_def)
    have "x / f4_quantum y \<le> y / f4_quantum y" using assms by (intro divide_right_mono) simp_all
    then have "round_even (x / f4_quantum y) \<le> round_even (y / f4_quantum y)"
      by (rule round_even_mono)
    then have "of_int (round_even (x / f4_quantum y)) * f4_quantum y
        \<le> of_int (round_even (y / f4_quantum y)) * f4_quantum y" by simp
    then show ?thesis using assms y q by (simp add: f4_def)
  next
    case False
    then have lt: "f4_exponent x + 1 \<le> f4_exponent y" using le by simp
    have "- 126 \<le> f4_exponent x" by (simp add: f4_exponent_def)
    then have "- 126 < f4_exponent y" using lt by simp
    then have "- 126 \<le> \<lfloor>log 2 y\<rfloor>" using y by (simp add: f4_exponent_def max_def split: if_splits)
    then have "2 powr of_int (f4_exponent y) \<le> f4 y" using y by (intro f4_lower)
    moreover have "f4 x \<le> 2 powr of_int (f4_exponent x + 1)" using assms by (intro f4_upper)
    moreover have "(2::real) powr of_int (f4_exponent x + 1) \<le> 2 powr of_int (f4_exponent y)"
      using lt by simp
    ultimately show ?thesis by linarith
  qed
qed

lemma f4_mono:
  assumes "x \<le> y"
  shows "f4 x \<le> f4 y"
proof -
  consider "0 < x" | "x \<le> 0" "0 \<le> y" | "y < 0" using assms by linarith
  then show ?thesis
  proof cases
    case 1
    then show ?thesis using assms by (rule f4_mono_pos)
  next
    case 2
    have "0 \<le> f4 (- x)" using 2 by (intro f4_nonneg) simp
    then have "f4 x \<le> 0" by (simp add: f4_minus)
    moreover have "0 \<le> f4 y" using 2 by (intro f4_nonneg)
    ultimately show ?thesis by simp
  next
    case 3
    have "f4 (- y) \<le> f4 (- x)" using 3 assms by (intro f4_mono_pos) simp_all
    then show ?thesis by (simp add: f4_minus)
  qed
qed

lemma f4_of_scaled:
  assumes "x \<noteq> 0" "x = of_int n * f4_quantum x"
  shows "f4 x = x"
proof -
  have "x / f4_quantum x = of_int n * f4_quantum x / f4_quantum x"
    using assms(2) by (rule arg_cong)
  then have "x / f4_quantum x = of_int n" by simp
  then have "round_even (x / f4_quantum x) = n" by (simp only: round_even_int)
  then have "f4 x = of_int n * f4_quantum x" using assms(1) by (simp add: f4_def)
  then show ?thesis using assms(2) by (rule trans [OF _ sym])
qed

lemma f4_fix:
  assumes m: "\<bar>m\<bar> < 2 ^ 24" and k: "- 149 \<le> k"
  shows "f4 (of_int m * 2 powr of_int k) = of_int m * 2 powr of_int k"
proof (cases "m = 0")
  case True
  then show ?thesis by simp
next
  case False
  define x :: real where "x = of_int m * 2 powr of_int k"
  have x0: "x \<noteq> 0" using False by (simp add: x_def)
  have absx: "\<bar>x\<bar> = of_int \<bar>m\<bar> * 2 powr of_int k" by (simp add: x_def abs_mult)
  have "(of_int \<bar>m\<bar> :: real) < 2 ^ 24" using m by simp
  then have "\<bar>x\<bar> < 2 ^ 24 * 2 powr of_int k" unfolding absx by (intro mult_strict_right_mono) simp_all
  also have "\<dots> = 2 powr of_int (24 + k)" by (simp add: powr_add)
  finally have up: "\<bar>x\<bar> < 2 powr of_int (24 + k)" .
  have "2 powr of_int \<lfloor>log 2 \<bar>x\<bar>\<rfloor> \<le> \<bar>x\<bar>" using floor_log_bracket(1) [of "\<bar>x\<bar>"] x0 by simp
  then have "(2::real) powr of_int \<lfloor>log 2 \<bar>x\<bar>\<rfloor> < 2 powr of_int (24 + k)" using up by linarith
  then have "\<lfloor>log 2 \<bar>x\<bar>\<rfloor> < 24 + k" by simp
  then have e: "f4_exponent x \<le> 23 + k" using k by (simp add: f4_exponent_def)
  define d where "d = nat (k - (f4_exponent x - 23))"
  have "of_int k = of_int (int d) + (of_int (f4_exponent x - 23) :: real)" using e by (simp add: d_def)
  then have "(2::real) powr of_int k = 2 powr (of_int (int d) + of_int (f4_exponent x - 23))"
    by (rule arg_cong)
  then have "(2::real) powr of_int k = 2 powr (of_int (int d)) * f4_quantum x"
    unfolding f4_quantum_def by (simp only: powr_add)
  moreover have "(2::real) powr (of_int (int d)) = 2 ^ d" by (simp add: powr_realpow)
  ultimately have pk: "(2::real) powr of_int k = 2 ^ d * f4_quantum x" by (simp only:)
  have "of_int m * 2 powr of_int k = of_int m * (2 ^ d * f4_quantum x)" by (simp only: pk)
  also have "\<dots> = of_int (m * 2 ^ d) * f4_quantum x" by simp
  finally have "x = of_int (m * 2 ^ d) * f4_quantum x" by (simp only: x_def [symmetric])
  with x0 have "f4 x = x" by (rule f4_of_scaled)
  then show ?thesis by (simp only: x_def)
qed

lemma f4_one [simp]: "f4 1 = 1"
  using f4_fix [of 1 0] by simp

lemma f4_half [simp]: "f4 (1 / 2) = 1 / 2"
  using f4_fix [of 1 "- 1"] by (simp add: powr_minus)

lemma f4_three [simp]: "f4 3 = 3"
  using f4_fix [of 3 0] by simp

lemma f4_err_unit:
  assumes "0 \<le> x" "x \<le> 1"
  shows "\<bar>f4 x - x\<bar> \<le> 1 / 2 ^ 25"
proof -
  consider "x = 0" | "x = 1" | "0 < x" "x < 1" using assms by linarith
  then show ?thesis
  proof cases
    case 3
    have "log 2 x < 0" using 3 by simp
    then have fl: "\<lfloor>log 2 x\<rfloor> < 0" by simp
    have "f4_exponent x = max \<lfloor>log 2 x\<rfloor> (- 126)" using 3 by (simp add: f4_exponent_def)
    then have "f4_exponent x - 23 \<le> - 24" using fl by linarith
    then have "f4_quantum x \<le> 2 powr of_int (- 24)"
      unfolding f4_quantum_def by (simp only: powr_le_cancel_iff of_int_le_iff)
    then have q: "f4_quantum x \<le> 1 / 2 ^ 24" by (simp add: powr_minus divide_simps)
    define n where "n = round_even (x / f4_quantum x)"
    have "\<bar>of_int n - x / f4_quantum x\<bar> \<le> 1 / 2" unfolding n_def by (rule round_even_err)
    then have "\<bar>of_int n - x / f4_quantum x\<bar> * f4_quantum x \<le> 1 / 2 * f4_quantum x"
      by (intro mult_right_mono) simp_all
    moreover have "\<bar>of_int n - x / f4_quantum x\<bar> * f4_quantum x = \<bar>of_int n * f4_quantum x - x\<bar>"
    proof -
      have "\<bar>of_int n - x / f4_quantum x\<bar> * f4_quantum x
          = \<bar>(of_int n - x / f4_quantum x) * f4_quantum x\<bar>" by (simp add: abs_mult)
      also have "(of_int n - x / f4_quantum x) * f4_quantum x = of_int n * f4_quantum x - x"
        by (simp add: left_diff_distrib)
      finally show ?thesis .
    qed
    moreover have "f4 x = of_int n * f4_quantum x" using 3 by (simp add: f4_def n_def)
    ultimately have "\<bar>f4 x - x\<bar> \<le> 1 / 2 * f4_quantum x" by simp
    then show ?thesis using q by simp
  qed simp_all
qed

lemma f4_near_one:
  assumes "1 - 1 / 2 ^ 25 \<le> x" "x < 1"
  shows "f4 x = 1"
proof -
  have x: "0 < x" using assms by simp
  have "\<lfloor>log 2 x\<rfloor> = - 1"
    using floor_log_eq_powr_iff [of x 2 "- 1"] assms x by (simp add: powr_minus)
  then have "f4_exponent x = - 1" using x by (simp add: f4_exponent_def)
  then have "f4_quantum x = 2 powr of_int (- 24)" by (simp add: f4_quantum_def)
  then have q: "f4_quantum x = 1 / 2 ^ 24" by (simp add: powr_minus divide_simps)
  define y where "y = x * 2 ^ 24"
  have y: "2 ^ 24 - 1 / 2 \<le> y" "y < 2 ^ 24" using assms by (simp_all add: y_def)
  have fl: "\<lfloor>y\<rfloor> = 2 ^ 24 - 1"
  proof (rule floor_unique)
    show "of_int (2 ^ 24 - 1) \<le> y" using y by simp
    show "y < of_int (2 ^ 24 - 1) + 1" using y by simp
  qed
  have "round_even y = 2 ^ 24" using y by (simp add: round_even_def fl Let_def)
  moreover have "x / f4_quantum x = y" by (simp add: q y_def)
  ultimately show ?thesis using x by (simp add: f4_def q)
qed

section \<open>Properties of the generator and of the array operations\<close>

lemma bindE_simps [simp]: "bindE (Inl e) f = Inl e" "bindE (Inr x) f = f x"
  by (simp_all add: bindE_def)

lemma length_draws [simp]: "length (fst (draws f n g)) = n"
  by (induction n arbitrary: g) (simp_all add: split_beta)

lemma draws_all:
  assumes "\<And>g. P (fst (f g))"
  shows "x \<in> set (fst (draws f n g)) \<Longrightarrow> P x"
  using assms by (induction n arbitrary: g) (auto simp: split_beta)

lemma drop11_bound: "unat (drop_bit 11 (w :: 64 word)) < 2 ^ 53"
proof -
  have "unat w < 2 ^ 64" using unsigned_less [of w] by simp
  moreover have "unat (drop_bit 11 w) = unat w div 2 ^ 11"
    by (simp add: drop_bit_eq_div unat_div)
  ultimately show ?thesis by simp
qed

lemma next_double_range: "0 \<le> fst (next_double G g) \<and> fst (next_double G g) < 1"
proof -
  obtain w g' where w: "next_uint64 G g = (w, g')" by (cases "next_uint64 G g")
  define k where "k = unat (drop_bit 11 w)"
  have "k < 2 ^ 53" unfolding k_def by (rule drop11_bound)
  then have "real k < 2 ^ 53"
    by (metis of_nat_less_iff of_nat_numeral of_nat_power)
  moreover have "fst (next_double G g) = real k / 2 ^ 53"
    by (simp add: next_double_def w k_def)
  ultimately show ?thesis by simp
qed

lemma next_bounded_range: "0 < n \<Longrightarrow> fst (next_bounded G n g) < n"
  by (simp add: next_bounded_def split_beta)

lemma length_rng_integers [simp]: "length (fst (rng_integers G g lo hi shp)) = prod_list shp"
  by (simp add: rng_integers_def split_beta)

lemma length_rng_choice [simp]: "length (fst (rng_choice G g pop shp)) = prod_list shp"
  by (simp add: rng_choice_def split_beta)

lemma rng_choice_subset: "pop \<noteq> [] \<Longrightarrow> set (fst (rng_choice G g pop shp)) \<subseteq> set pop"
  by (auto simp: rng_choice_def split_beta dest!: draws_all [rotated, where P = "\<lambda>i. i < length pop"]
      intro: next_bounded_range)

lemma rng_random_sel [simp]:
  "nd_lead (fst (rng_random G g lead w)) = lead"
  "nd_width (fst (rng_random G g lead w)) = w"
  "length (nd_rows (fst (rng_random G g lead w))) = prod_list lead"
  by (simp_all add: rng_random_def split_beta)

lemma rng_random_rows:
  assumes "r \<in> set (nd_rows (fst (rng_random G g lead w)))"
  shows "length r = w \<and> (\<forall>x\<in>set r. 0 \<le> x \<and> x < 1)"
proof -
  have "length r = w \<and> (\<forall>x\<in>set r. 0 \<le> x \<and> x < 1)"
    if "r \<in> set (fst (draws (draws (next_double G) w) k g))" for k
    using that
  proof (rule draws_all [rotated])
    fix g' show "length (fst (draws (next_double G) w g')) = w \<and>
        (\<forall>x\<in>set (fst (draws (next_double G) w g')). 0 \<le> x \<and> x < 1)"
      by (auto intro: draws_all [where f = "next_double G" and P = "\<lambda>x. 0 \<le> x"] 
         draws_all [where f = "next_double G" and P = "\<lambda>x. x < 1"] simp: next_double_range)
  qed
  with assms show ?thesis by (simp add: rng_random_def split_beta)
qed

section \<open>The track builder\<close>

lemma mock_tracks_ok:
  "\<exists>a. mock_tracks G e n t = Inr a \<and> shape a = [n, t] \<and>
       dtype a = TRACK_VARS @ [(''valid'', B1)]"
  by (simp add: mock_tracks_def Let_def split_beta u2s_def TRACK_VARS_def
      imul_field_def get_field_def set_field_def dtype_def names_def)

text \<open>
  C3, as the code has it. \<^verbatim>\<open>TRACK_VARS\<close> lists 21 fields, not 20, so the output of
  \<^verbatim>\<open>mock_tracks\<close> has 22 fields: the 21 track fields in their order, then the boolean
  field \<open>valid\<close>. For every \<open>N\<close> and \<open>T\<close> the call succeeds and the shape is \<open>(N, T)\<close>.
\<close>

theorem mock_tracks_shape_schema:
  "\<exists>a. mock_tracks G e n t = Inr a \<and> shape a = [n, t] \<and>
       dtype a = TRACK_VARS @ [(''valid'', B1)] \<and>
       length TRACK_VARS = 21 \<and> length (dtype a) = 22"
proof -
  obtain a where a: "mock_tracks G e n t = Inr a" "shape a = [n, t]"
      "dtype a = TRACK_VARS @ [(''valid'', B1)]"
    using mock_tracks_ok [of G e n t] by auto
  have "length TRACK_VARS = 21" by (simp add: TRACK_VARS_def)
  with a show ?thesis by simp
qed

theorem mock_tracks_shape_schema_witness:
  "\<exists>a. mock_tracks lcg (0::nat) 1000 40 = Inr a \<and> shape a = [1000, 40] \<and>
       dtype a = TRACK_VARS @ [(''valid'', B1)] \<and>
       length TRACK_VARS = 21 \<and> length (dtype a) = 22"
  using mock_tracks_shape_schema [of lcg 0 1000 40] .

text \<open>
  C3 as stated fails: with \<open>N = 1000\<close> and \<open>T = 40\<close> the schema has 22 fields, of which
  21 are track fields.
\<close>

theorem mock_tracks_21_fields_counterexample:
  "length TRACK_VARS = 21 \<and> \<not> isl (mock_tracks lcg (0::nat) 1000 40) \<and>
   length (dtype (projr (mock_tracks lcg (0::nat) 1000 40))) = 22"
proof -
  obtain a where a: "mock_tracks lcg (0::nat) 1000 40 = Inr a"
      "dtype a = TRACK_VARS @ [(''valid'', B1)]"
    using mock_tracks_ok [of lcg 0 1000 40] by auto
  have "length TRACK_VARS = 21" by (simp add: TRACK_VARS_def)
  with a show ?thesis by simp
qed

section \<open>Determinism\<close>

text \<open>
  C1. Two calls of \<^verbatim>\<open>mock_jets\<close> with the same sample count give the same array,
  whatever the entropy available to the process at either call, and so do two calls of
  \<^verbatim>\<open>get_mock_scores\<close> with the same labels: every generator a call constructs is the
  one derived from the seed 42, and nothing else reaches the output.
\<close>

theorem mock_jets_deterministic:
  "mock_jets G e1 n = mock_jets G e2 n \<and>
   get_mock_scores G e1 labels is_xbb = get_mock_scores G e2 labels is_xbb \<and>
   default_rng G e1 (Some 42) = from_seed G 42"
  by (simp add: mock_jets_def get_mock_scores_def raw_scores_def default_rng_def)

theorem mock_jets_deterministic_witness:
  "mock_jets lcg (0::nat) 1000 = mock_jets lcg 7 1000 \<and>
   get_mock_scores lcg (0::nat) [0, 4, 5] False = get_mock_scores lcg 7 [0, 4, 5] False \<and>
   default_rng lcg (0::nat) (Some 42) = from_seed lcg 42"
  using mock_jets_deterministic [of lcg 0 1000 7 "[0, 4, 5]" False] .

section \<open>The score synthesizer\<close>

lemma length_assign_mask [simp]: "length (assign_mask ms vs ss) = length ss"
  by (induction ms vs ss rule: assign_mask.induct) (auto split: list.splits)

lemma set_assign_mask: "set (assign_mask ms vs ss) \<subseteq> set vs \<union> set ss"
  by (induction ms vs ss rule: assign_mask.induct) (auto split: list.splits)

lemma length_normal_row [simp]: "length (fst (normal_row G sc loc g)) = length loc"
  by (induction loc arbitrary: g) (simp_all add: split_beta)

lemma length_rng_normal [simp]: "length (fst (rng_normal G g loc sc c)) = c"
  by (simp add: rng_normal_def)

lemma rng_normal_rows: "r \<in> set (fst (rng_normal G g loc sc c)) \<Longrightarrow> length r = length loc"
  unfolding rng_normal_def
  by (erule draws_all [rotated]) simp

lemma label_mapping_dom:
  "dom (label_mapping is_xbb) = (if is_xbb then {11, 12, 1, 10} else {0, 4, 5, 15})"
  by (auto simp: label_mapping_def label_dict_def means_def split: if_splits)

lemma label_mapping_length: "label_mapping is_xbb l = Some loc \<Longrightarrow> length loc = 4"
  by (auto simp: label_mapping_def label_dict_def means_def split: if_splits)

lemma distinct_np_unique [simp]: "distinct (np_unique labels)" "sorted (np_unique labels)"
  "set (np_unique labels) = set labels"
  by (simp_all add: np_unique_def)

lemma known_unique_bound:
  "length (filter (\<lambda>p. label_mapping is_xbb (fst p) \<noteq> None) (unique_counts labels)) \<le> length scales"
proof -
  let ?K = "filter (\<lambda>l. label_mapping is_xbb l \<noteq> None) (np_unique labels)"
  have "length (filter (\<lambda>p. label_mapping is_xbb (fst p) \<noteq> None) (unique_counts labels)) = length ?K"
    by (simp add: unique_counts_def filter_map comp_def)
  also have "\<dots> = card (set ?K)"
    by (rule distinct_card [symmetric]) simp
  also have "\<dots> \<le> card (dom (label_mapping is_xbb))"
    by (rule card_mono) (auto simp: finite_dom_map_of label_mapping_def)
  also have "\<dots> \<le> 4" by (simp add: label_mapping_dom)
  finally show ?thesis by (simp add: scales_def)
qed

lemma scores_loop_result:
  assumes "i + length (filter (\<lambda>p. lm (fst p) \<noteq> None) pairs) \<le> length scales"
  shows "case find (\<lambda>p. lm (fst p) = None) pairs of
           Some p \<Rightarrow> scores_loop G lm labels i pairs rng scores = Inl (KeyError (fst p))
         | None \<Rightarrow> \<exists>out. scores_loop G lm labels i pairs rng scores = Inr out"
  using assms
proof (induction pairs arbitrary: i rng scores)
  case Nil
  then show ?case by simp
next
  case (Cons p pairs)
  obtain label count where p: "p = (label, count)" by (cases p)
  show ?case
  proof (cases "lm label")
    case None
    then show ?thesis by (simp add: p)
  next
    case (Some loc)
    with Cons.prems have i: "i < length scales"
      and rest: "Suc i + length (filter (\<lambda>p. lm (fst p) \<noteq> None) pairs) \<le> length scales"
      by (simp_all add: p)
    let ?blk = "rng_normal G rng loc (scales ! i) count"
    let ?sc = "assign_mask (map (\<lambda>l. l = label) labels) (fst ?blk) scores"
    have step: "scores_loop G lm labels i (p # pairs) rng scores =
        scores_loop G lm labels (Suc i) pairs (snd ?blk) ?sc"
      using Some i by (simp add: p py_index_def split_beta)
    have find: "find (\<lambda>p. lm (fst p) = None) (p # pairs) = find (\<lambda>p. lm (fst p) = None) pairs"
      using Some by (simp add: p)
    show ?thesis
      using Cons.IH [OF rest, of "snd ?blk" ?sc] by (simp only: step find)
  qed
qed

lemma scores_loop_rows:
  assumes "scores_loop G lm labels i pairs rng scores = Inr out"
    and "\<And>l loc. lm l = Some loc \<Longrightarrow> length loc = w"
    and "\<And>r. r \<in> set scores \<Longrightarrow> length r = w"
  shows "length out = length scores \<and> (\<forall>r\<in>set out. length r = w)"
  using assms
proof (induction pairs arbitrary: i rng scores)
  case Nil
  then show ?case by auto
next
  case (Cons p pairs)
  obtain label count where p: "p = (label, count)" by (cases p)
  from Cons.prems(1) obtain loc where loc: "lm label = Some loc"
    by (cases "lm label") (simp_all add: p)
  from Cons.prems(1) loc have i: "i < length scales"
    by (simp add: p py_index_def split: if_splits)
  let ?blk = "rng_normal G rng loc (scales ! i) count"
  let ?sc = "assign_mask (map (\<lambda>l. l = label) labels) (fst ?blk) scores"
  from Cons.prems(1) loc i
  have run: "scores_loop G lm labels (Suc i) pairs (snd ?blk) ?sc = Inr out"
    by (simp add: p py_index_def split_beta)
  have rows: "length r = w" if "r \<in> set ?sc" for r
  proof -
    from that set_assign_mask have "r \<in> set (fst ?blk) \<or> r \<in> set scores" by fastforce
    then show ?thesis
      using rng_normal_rows Cons.prems(2) [OF loc] Cons.prems(3) by fastforce
  qed
  from Cons.IH [OF run Cons.prems(2) rows] show ?case by simp
qed

lemma find_map_pairs:
  "find (\<lambda>p. P (fst p)) (map (\<lambda>l. (l, f l)) xs) = map_option (\<lambda>l. (l, f l)) (find P xs)"
  by (induction xs) simp_all

lemma find_sorted_Min:
  fixes xs :: "int list"
  assumes "sorted xs" "find P xs = Some x"
  shows "x = Min {y \<in> set xs. P y}"
  using assms
proof (induction xs)
  case Nil
  then show ?case by simp
next
  case (Cons a xs)
  show ?case
  proof (cases "P a")
    case True
    with Cons.prems have "x = a" by simp
    moreover have "Min {y \<in> set (a # xs). P y} = a"
    proof (rule Min_eqI)
      show "finite {y \<in> set (a # xs). P y}" by simp
      show "a \<in> {y \<in> set (a # xs). P y}" using True by simp
      fix y assume "y \<in> {y \<in> set (a # xs). P y}"
      with Cons.prems(1) show "a \<le> y" by auto
    qed
    ultimately show ?thesis by simp
  next
    case False
    with Cons have "x = Min {y \<in> set xs. P y}" by simp
    moreover from False have "{y \<in> set (a # xs). P y} = {y \<in> set xs. P y}" by auto
    ultimately show ?thesis by simp
  qed
qed

lemma raw_scores_cases:
  "case find (\<lambda>l. label_mapping is_xbb l = None) (np_unique labels) of
     Some l \<Rightarrow> raw_scores G e labels is_xbb = Inl (KeyError l)
   | None \<Rightarrow> \<exists>arr. raw_scores G e labels is_xbb = Inr arr"
proof -
  let ?lm = "label_mapping is_xbb"
  have b: "0 + length (filter (\<lambda>p. ?lm (fst p) \<noteq> None) (unique_counts labels)) \<le> length scales"
    using known_unique_bound [of is_xbb labels] by simp
  have f: "find (\<lambda>p. ?lm (fst p) = None) (unique_counts labels) =
      map_option (\<lambda>l. (l, count_list labels l)) (find (\<lambda>l. ?lm l = None) (np_unique labels))"
    unfolding unique_counts_def by (rule find_map_pairs)
  show ?thesis
    using scores_loop_result [OF b, of G labels "default_rng G e (Some 42)"
        "nd_rows (np_zeros [length labels] (length (label_dict is_xbb)))"]
    by (cases "find (\<lambda>l. ?lm l = None) (np_unique labels)")
       (auto simp: f raw_scores_def Let_def)
qed

lemma raw_scores_unknown:
  assumes "l \<in> set labels" "label_mapping is_xbb l = None"
  shows "raw_scores G e labels is_xbb =
         Inl (KeyError (Min {l \<in> set labels. label_mapping is_xbb l = None}))"
proof -
  from assms have "find (\<lambda>l. label_mapping is_xbb l = None) (np_unique labels) \<noteq> None"
    by (auto simp: find_None_iff)
  then obtain x where x: "find (\<lambda>l. label_mapping is_xbb l = None) (np_unique labels) = Some x"
    by auto
  from find_sorted_Min [OF _ x] have "x = Min {l \<in> set labels. label_mapping is_xbb l = None}"
    by simp
  with raw_scores_cases [of G e labels is_xbb] x show ?thesis by simp
qed

lemma raw_scores_known:
  assumes "set labels \<subseteq> dom (label_mapping is_xbb)"
  shows "\<exists>arr. raw_scores G e labels is_xbb = Inr arr"
proof -
  from assms have "find (\<lambda>l. label_mapping is_xbb l = None) (np_unique labels) = None"
    by (auto simp: find_None_iff)
  with raw_scores_cases [of G e labels is_xbb] show ?thesis by simp
qed

lemma raw_scores_Inr_known:
  assumes "raw_scores G e labels is_xbb = Inr arr"
  shows "set labels \<subseteq> dom (label_mapping is_xbb)"
proof (rule ccontr)
  assume "\<not> set labels \<subseteq> dom (label_mapping is_xbb)"
  then obtain l where "l \<in> set labels" "label_mapping is_xbb l = None" by auto
  from raw_scores_unknown [OF this, of G e] assms show False by simp
qed

lemma raw_scores_shape:
  assumes "raw_scores G e labels is_xbb = Inr arr"
  shows "nd_lead arr = [length labels]" "nd_width arr = 4"
    "length (nd_rows arr) = length labels" "\<forall>r\<in>set (nd_rows arr). length r = 4"
proof -
  let ?z = "np_zeros [length labels] (length (label_dict is_xbb))"
  from assms obtain rows where
    run: "scores_loop G (label_mapping is_xbb) labels 0 (unique_counts labels)
            (default_rng G e (Some 42)) (nd_rows ?z) = Inr rows"
    and arr: "arr = ?z\<lparr>nd_rows := rows\<rparr>"
    by (auto simp: raw_scores_def Let_def bindE_def split: sum.splits)
  have w: "length (label_dict is_xbb) = 4" by (simp add: label_dict_def)
  have "length rows = length (nd_rows ?z) \<and> (\<forall>r\<in>set rows. length r = 4)"
    by (rule scores_loop_rows [OF run]) (auto simp: label_mapping_length np_zeros_def w)
  then show "nd_lead arr = [length labels]" "nd_width arr = 4"
    "length (nd_rows arr) = length labels" "\<forall>r\<in>set (nd_rows arr). length r = 4"
    by (simp_all add: arr np_zeros_def w)
qed

lemma scores_of_raw:
  assumes "raw_scores G e labels is_xbb = Inr arr"
  shows "get_mock_scores G e labels is_xbb =
     Inr \<lparr>shape = [length labels],
          columns = map (\<lambda>(j, name). (name, FloatCol (map (\<lambda>r. f4 (softmax_row r ! j)) (nd_rows arr))))
                        (enumerate 0 (score_fields is_xbb))\<rparr>"
  using raw_scores_shape [OF assms]
  by (simp add: get_mock_scores_def assms u2s_def softmax_def label_dict_def score_fields_def
      Let_def comp_def)

lemma sum_list_map_divide: "sum_list (map (\<lambda>v. v / s) (e :: real list)) = sum_list e / s"
  by (induction e) (simp_all add: add_divide_distrib)

lemma softmax_row_distribution:
  assumes "x \<noteq> []"
  shows "length (softmax_row x) = length x" "\<forall>v\<in>set (softmax_row x). 0 \<le> v"
    "sum_list (softmax_row x) = 1"
proof -
  define e_x where "e_x = map (\<lambda>v. exp (v - Max (set x))) x"
  have sr: "softmax_row x = map (\<lambda>v. v / sum_list e_x) e_x"
    by (simp add: softmax_row_def e_x_def Let_def)
  have pos: "\<forall>v\<in>set e_x. 0 < v" by (simp add: e_x_def)
  from assms obtain a xs where "e_x = a # xs" by (cases x) (simp_all add: e_x_def)
  with pos have "0 < a" "0 \<le> sum_list xs" by (simp_all add: sum_list_nonneg less_imp_le)
  with \<open>e_x = a # xs\<close> have s: "0 < sum_list e_x" by simp
  show "length (softmax_row x) = length x" by (simp add: sr e_x_def)
  show "\<forall>v\<in>set (softmax_row x). 0 \<le> v" using pos s by (auto simp: sr less_imp_le)
  show "sum_list (softmax_row x) = 1" using s by (simp add: sr sum_list_map_divide)
qed

lemma list4: "length r = 4 \<Longrightarrow> [r ! 0, r ! Suc 0, r ! Suc (Suc 0), r ! Suc (Suc (Suc 0))] = r"
  by (auto simp: length_Suc_conv numeral_eq_Suc)

lemma record_at_scores:
  assumes "raw_scores G e labels is_xbb = Inr arr" "get_mock_scores G e labels is_xbb = Inr a"
    "i < length labels"
  shows "record_at a i = map f4 (softmax_row (nd_rows arr ! i))"
proof -
  from raw_scores_shape [OF assms(1)] assms(3)
  have len: "i < length (nd_rows arr)" and "length (nd_rows arr ! i) = 4" by simp_all
  then have "nd_rows arr ! i \<noteq> []" by auto
  from softmax_row_distribution(1) [OF this] \<open>length (nd_rows arr ! i) = 4\<close>
  have "length (softmax_row (nd_rows arr ! i)) = 4" by simp
  from list4 [OF this]
  have "map f4 [softmax_row (nd_rows arr ! i) ! 0, softmax_row (nd_rows arr ! i) ! Suc 0,
          softmax_row (nd_rows arr ! i) ! Suc (Suc 0),
          softmax_row (nd_rows arr ! i) ! Suc (Suc (Suc 0))]
        = map f4 (softmax_row (nd_rows arr ! i))" by (rule arg_cong)
  then have l4: "[f4 (softmax_row (nd_rows arr ! i) ! 0), f4 (softmax_row (nd_rows arr ! i) ! Suc 0),
          f4 (softmax_row (nd_rows arr ! i) ! Suc (Suc 0)),
          f4 (softmax_row (nd_rows arr ! i) ! Suc (Suc (Suc 0)))]
        = map f4 (softmax_row (nd_rows arr ! i))" by simp
  from assms(2) have a: "a = \<lparr>shape = [length labels],
          columns = map (\<lambda>(j, name). (name, FloatCol (map (\<lambda>r. f4 (softmax_row r ! j)) (nd_rows arr))))
                        (enumerate 0 (score_fields is_xbb))\<rparr>"
    by (simp add: scores_of_raw [OF assms(1)])
  from l4 len show ?thesis
    unfolding a by (cases is_xbb) (simp_all add: record_at_def score_fields_def)
qed

lemma member_le_sum_list_real:
  "\<forall>v\<in>set p. (0::real) \<le> v \<Longrightarrow> x \<in> set p \<Longrightarrow> x \<le> sum_list p"
proof (induction p)
  case Nil
  then show ?case by simp
next
  case (Cons a p)
  then have "0 \<le> a" "0 \<le> sum_list p" by (simp_all add: sum_list_nonneg)
  with Cons show ?case by auto
qed

lemma sum_list_f4_err:
  "\<forall>v\<in>set p. 0 \<le> v \<and> v \<le> 1 \<Longrightarrow>
   \<bar>sum_list (map f4 p) - sum_list p\<bar> \<le> real (length p) / 2 ^ 25"
proof (induction p)
  case Nil
  then show ?case by simp
next
  case (Cons a p)
  have 1: "\<bar>f4 a - a\<bar> \<le> 1 / 2 ^ 25" using Cons.prems by (intro f4_err_unit) simp_all
  have 2: "\<bar>sum_list (map f4 p) - sum_list p\<bar> \<le> real (length p) / 2 ^ 25"
    using Cons by simp
  have "\<bar>sum_list (map f4 (a # p)) - sum_list (a # p)\<bar>
      \<le> \<bar>f4 a - a\<bar> + \<bar>sum_list (map f4 p) - sum_list p\<bar>" by simp
  also have "\<dots> \<le> 1 / 2 ^ 25 + real (length p) / 2 ^ 25" using 1 2 by (rule add_mono)
  also have "\<dots> = real (length (a # p)) / 2 ^ 25" by (simp add: add_divide_distrib)
  finally show ?case .
qed

lemma scores_rows_aux:
  assumes "get_mock_scores G e labels is_xbb = Inr a" "i < length labels"
  shows "shape a = [length labels] \<and> names a = score_fields is_xbb \<and>
         length (record_at a i) = 4 \<and> (\<forall>v\<in>set (record_at a i). 0 \<le> v) \<and>
         \<bar>sum_list (record_at a i) - 1\<bar> \<le> 1 / 2 ^ 23 \<and>
         (\<exists>p. record_at a i = map f4 p \<and> (\<forall>v\<in>set p. 0 \<le> v) \<and> sum_list p = 1)"
proof -
  from assms(1) obtain arr where arr: "raw_scores G e labels is_xbb = Inr arr"
    by (cases "raw_scores G e labels is_xbb") (simp_all add: get_mock_scores_def)
  define p where "p = softmax_row (nd_rows arr ! i)"
  from raw_scores_shape [OF arr] assms(2)
  have "length (nd_rows arr ! i) = 4" by simp
  then have ne: "nd_rows arr ! i \<noteq> []" by auto
  have sh: "shape a = [length labels] \<and> names a = score_fields is_xbb"
    using assms(1) by (auto simp: scores_of_raw [OF arr] names_def score_fields_def)
  from softmax_row_distribution [OF ne] \<open>length (nd_rows arr ! i) = 4\<close>
  have p: "length p = 4" "\<forall>v\<in>set p. 0 \<le> v" "sum_list p = 1" by (simp_all add: p_def)
  have rec: "record_at a i = map f4 p" by (simp add: record_at_scores [OF arr assms] p_def)
  have unit: "\<forall>v\<in>set p. 0 \<le> v \<and> v \<le> 1"
    using member_le_sum_list_real [OF p(2)] p(2,3) by auto
  have "\<forall>v\<in>set (map f4 p). 0 \<le> v" using p(2) by (auto intro: f4_nonneg)
  moreover have "\<bar>sum_list (map f4 p) - 1\<bar> \<le> 1 / 2 ^ 23"
    using sum_list_f4_err [OF unit] p(1,3) by simp
  ultimately show ?thesis using sh p rec by auto
qed

lemma scores_fail_unknown:
  assumes "l \<in> set labels" "label_mapping is_xbb l = None"
  shows "get_mock_scores G e labels is_xbb =
         Inl (KeyError (Min {l \<in> set labels. label_mapping is_xbb l = None}))"
  by (simp add: get_mock_scores_def raw_scores_unknown [OF assms])

lemma scores_succeed_known:
  assumes "set labels \<subseteq> dom (label_mapping is_xbb)"
  shows "get_mock_scores G e labels is_xbb =
     Inr \<lparr>shape = [length labels],
          columns = map (\<lambda>(j, name). (name, FloatCol (map (\<lambda>r. f4 (softmax_row r ! j))
                            (nd_rows (projr (raw_scores G e labels is_xbb))))))
                        (enumerate 0 (score_fields is_xbb))\<rparr>"
proof -
  from raw_scores_known [OF assms, of G e] obtain arr where arr: "raw_scores G e labels is_xbb = Inr arr"
    by blast
  show ?thesis by (simp add: scores_of_raw [OF arr] arr)
qed

lemma choice_labels_known [simp]:
  "set (fst (rng_choice G g [0, 4, 5, 15] shp)) \<subseteq> dom (label_mapping False)"
  "set (fst (rng_choice G g [1, 10, 11, 12] shp)) \<subseteq> dom (label_mapping True)"
  using rng_choice_subset [of "[0, 4, 5, 15] :: int list" G g shp]
    rng_choice_subset [of "[1, 10, 11, 12] :: int list" G g shp]
  by (auto simp: label_mapping_dom)

lemma six_Suc: "(6::nat) = Suc (Suc (Suc (Suc (Suc (Suc 0)))))"
  by simp

lemma length_known_rows [simp]:
  assumes "set labels \<subseteq> dom (label_mapping is_xbb)"
  shows "length (nd_rows (projr (raw_scores G e labels is_xbb))) = length labels"
proof -
  from raw_scores_known [OF assms, of G e] obtain arr where arr: "raw_scores G e labels is_xbb = Inr arr"
    by blast
  from raw_scores_shape(3) [OF arr] show ?thesis by (simp add: arr)
qed

lemma mock_jets_ok:
  "\<exists>a. mock_jets G e n = Inr a \<and> shape a = [n] \<and>
     dtype a = JET_VARS @ map (\<lambda>name. (name, F4)) (score_fields False)
                        @ map (\<lambda>name. (name, F4)) (score_fields True) \<and>
     list_all (\<lambda>(name, c). col_len c = n) (columns a) \<and>
     field a ''eta'' = Some (FloatCol (map (\<lambda>r. f4 (f4 (f4 (r ! 1) - 1 / 2) * 6))
        (nd_rows (fst (rng_random G (default_rng G e (Some 42)) [n] (length JET_VARS)))))) \<and>
     field a ''abs_eta'' = Some (FloatCol (map (\<lambda>r. \<bar>f4 (f4 (f4 (r ! 1) - 1 / 2) * 6)\<bar>)
        (nd_rows (fst (rng_random G (default_rng G e (Some 42)) [n] (length JET_VARS)))))) \<and>
     field a ''n_tracks'' = Some (IntCol (map (\<lambda>r. trunc (r ! 6))
        (nd_rows (fst (rng_random G (default_rng G e (Some 42)) [n] (length JET_VARS))))))"
  by (simp add: mock_jets_def Let_def split_beta u2s_def JET_VARS_def
      imul_field_def get_field_def set_field_def fill_field_def dtype_def names_def field_def
      scores_succeed_known score_fields_def comp_def six_Suc)

lemma trunc_unit: "0 \<le> x \<Longrightarrow> x < 1 \<Longrightarrow> trunc x = 0"
  by (simp add: trunc_def floor_eq_iff)

lemma f4_eta_range:
  assumes "0 \<le> u" "u < 1"
  shows "- 3 \<le> f4 (f4 (f4 u - 1 / 2) * 6) \<and> f4 (f4 (f4 u - 1 / 2) * 6) \<le> 3"
proof -
  have "f4 0 \<le> f4 u" using assms(1) by (rule f4_mono)
  moreover have "f4 u \<le> f4 1" using assms(2) by (intro f4_mono) simp
  ultimately have 1: "- (1 / 2) \<le> f4 u - 1 / 2" and 2: "f4 u - 1 / 2 \<le> 1 / 2" by simp_all
  have "f4 (- (1 / 2)) \<le> f4 (f4 u - 1 / 2)" using 1 by (rule f4_mono)
  moreover have "f4 (f4 u - 1 / 2) \<le> f4 (1 / 2)" using 2 by (rule f4_mono)
  ultimately have 3: "- 3 \<le> f4 (f4 u - 1 / 2) * 6" and 4: "f4 (f4 u - 1 / 2) * 6 \<le> 3"
    by (simp_all add: f4_minus)
  have "f4 (- 3) \<le> f4 (f4 (f4 u - 1 / 2) * 6)" using 3 by (rule f4_mono)
  moreover have "f4 (f4 (f4 u - 1 / 2) * 6) \<le> f4 3" using 4 by (rule f4_mono)
  ultimately show ?thesis by (simp add: f4_minus)
qed

lemma draws_const:
  assumes "\<And>g. fst (f g) = c" "x \<in> set (fst (draws f n g))"
  shows "x = c"
  using assms(2) by (rule draws_all [where P = "\<lambda>x. x = c", rotated]) (rule assms(1))

lemma all_ones_double: "fst (next_double all_ones g) = (2 ^ 53 - 1) / 2 ^ 53"
proof -
  define k where "k = unat (drop_bit 11 (- 1 :: 64 word))"
  have k: "k = 2 ^ 53 - 1"
    unfolding k_def
    by (simp add: unat_drop_bit_eq unsigned_minus_1_eq_mask mask_eq_exp_minus_1 drop_bit_eq_div)
  have "fst (next_double all_ones g) = real k / 2 ^ 53"
    unfolding k_def by (simp add: next_double_def all_ones_def)
  then show ?thesis by (simp add: k)
qed

lemma all_ones_rows:
  assumes "r \<in> set (nd_rows (fst (rng_random all_ones g lead w)))" "x \<in> set r"
  shows "x = (2 ^ 53 - 1) / 2 ^ 53"
proof -
  from assms(1) have "r \<in> set (fst (draws (draws (next_double all_ones) w) (prod_list lead) g))"
    by (simp add: rng_random_def split_beta)
  then obtain g' where "r = fst (draws (next_double all_ones) w g')"
    by (rule draws_all [where P = "\<lambda>r. \<exists>g'. r = fst (draws (next_double all_ones) w g')", rotated,
          THEN exE]) blast
  with assms(2) have "x \<in> set (fst (draws (next_double all_ones) w g'))" by simp
  then show ?thesis by (rule draws_const [OF all_ones_double])
qed

lemma singleton_list: "length xs = 1 \<Longrightarrow> \<exists>r. xs = [r]"
  by (cases xs) auto

section \<open>The jet builder\<close>

text \<open>
  C4. For every sample count \<open>N\<close>, in particular for \<open>N = 1000\<close>, \<^verbatim>\<open>mock_jets\<close> returns a
  record array of \<open>N\<close> rows (shape \<open>(N,)\<close>, every column of length \<open>N\<close>) whose schema is
  the 12 fields of \<^verbatim>\<open>JET_VARS\<close>, then the 4 score fields of the standard taxonomy, then
  the 4 score fields of the alternate taxonomy: 20 fields, in that order.
\<close>

theorem mock_jets_schema:
  "\<exists>a. mock_jets G e n = Inr a \<and> shape a = [n] \<and>
     list_all (\<lambda>(name, c). col_len c = n) (columns a) \<and>
     dtype a = JET_VARS
       @ [(''MockTagger_pu'', F4), (''MockTagger_pc'', F4), (''MockTagger_pb'', F4),
          (''MockTagger_ptau'', F4)]
       @ [(''MockXbbTagger_phbb'', F4), (''MockXbbTagger_phcc'', F4),
          (''MockXbbTagger_ptop'', F4), (''MockXbbTagger_pqcd'', F4)] \<and>
     length JET_VARS = 12 \<and> length (dtype a) = 20"
proof -
  obtain a where a: "mock_jets G e n = Inr a" "shape a = [n]"
    "list_all (\<lambda>(name, c). col_len c = n) (columns a)"
    "dtype a = JET_VARS @ map (\<lambda>name. (name, F4)) (score_fields False)
                        @ map (\<lambda>name. (name, F4)) (score_fields True)"
    using mock_jets_ok [of G e n] by auto
  have "length JET_VARS = 12" by (simp add: JET_VARS_def)
  with a show ?thesis by (simp add: score_fields_def)
qed

theorem mock_jets_schema_witness:
  "\<exists>a. mock_jets lcg (0::nat) 1000 = Inr a \<and> shape a = [1000] \<and>
     list_all (\<lambda>(name, c). col_len c = 1000) (columns a) \<and>
     dtype a = JET_VARS
       @ [(''MockTagger_pu'', F4), (''MockTagger_pc'', F4), (''MockTagger_pb'', F4),
          (''MockTagger_ptau'', F4)]
       @ [(''MockXbbTagger_phbb'', F4), (''MockXbbTagger_phcc'', F4),
          (''MockXbbTagger_ptop'', F4), (''MockXbbTagger_pqcd'', F4)] \<and>
     length JET_VARS = 12 \<and> length (dtype a) = 20"
  using mock_jets_schema [of lcg 0 1000] .

text \<open>
  C9. In the output of \<^verbatim>\<open>mock_jets\<close> every value of the field \<open>eta\<close> lies in the closed
  range \<open>[-3, 3]\<close>: it is the single precision result of \<open>(u - 0.5) * 6\<close> for a draw \<open>u\<close>
  in \<open>[0, 1)\<close> that was rounded to single precision. The field \<open>abs_eta\<close> is the absolute
  value of \<open>eta\<close>, jet by jet.
\<close>

theorem mock_jets_eta:
  "\<exists>a eta. mock_jets G e n = Inr a \<and>
     field a ''eta'' = Some (FloatCol eta) \<and>
     field a ''abs_eta'' = Some (FloatCol (map abs eta)) \<and>
     length eta = n \<and> (\<forall>x\<in>set eta. - 3 \<le> x \<and> x \<le> 3)"
proof -
  let ?rows = "nd_rows (fst (rng_random G (default_rng G e (Some 42)) [n] (length JET_VARS)))"
  let ?eta = "map (\<lambda>r. f4 (f4 (f4 (r ! 1) - 1 / 2) * 6)) ?rows"
  obtain a where a: "mock_jets G e n = Inr a" "field a ''eta'' = Some (FloatCol ?eta)"
    "field a ''abs_eta'' = Some (FloatCol (map (\<lambda>r. \<bar>f4 (f4 (f4 (r ! 1) - 1 / 2) * 6)\<bar>) ?rows))"
    using mock_jets_ok [of G e n] by auto
  have range: "- 3 \<le> f4 (f4 (f4 (r ! 1) - 1 / 2) * 6) \<and> f4 (f4 (f4 (r ! 1) - 1 / 2) * 6) \<le> 3"
    if "r \<in> set ?rows" for r
  proof -
    from rng_random_rows [OF that]
    have "length r = length JET_VARS" and u: "\<forall>x\<in>set r. 0 \<le> x \<and> x < 1" by simp_all
    then have "1 < length r" by (simp add: JET_VARS_def)
    then have "r ! 1 \<in> set r" by (rule nth_mem)
    with u have "0 \<le> r ! 1" "r ! 1 < 1" by simp_all
    then show ?thesis by (simp add: f4_eta_range)
  qed
  have "map abs ?eta = map (\<lambda>r. \<bar>f4 (f4 (f4 (r ! 1) - 1 / 2) * 6)\<bar>) ?rows" by (simp add: comp_def)
  moreover have "length ?eta = n" by simp
  moreover have "\<forall>x\<in>set ?eta. - 3 \<le> x \<and> x \<le> 3" using range by auto
  ultimately show ?thesis using a by metis
qed

theorem mock_jets_eta_witness:
  "\<exists>a eta. mock_jets lcg (0::nat) 5 = Inr a \<and>
     field a ''eta'' = Some (FloatCol eta) \<and>
     field a ''abs_eta'' = Some (FloatCol (map abs eta)) \<and>
     length eta = 5 \<and> (\<forall>x\<in>set eta. - 3 \<le> x \<and> x \<le> 3)"
  using mock_jets_eta [of lcg 0 5] .

text \<open>
  The upper bound is attained, so the range is not the half-open \<open>[-3, 3)\<close> of the
  claim: a draw within \<open>2^(-25)\<close> of 1 is rounded to 1 by the conversion to \<open>f4\<close>, and
  \<open>eta\<close> is then exactly 3. With the bit generator whose words have all bits set, the
  one jet of \<^verbatim>\<open>mock_jets(1)\<close> has \<open>eta = 3\<close>.
\<close>

theorem eta_reaches_three_counterexample:
  "\<not> isl (mock_jets all_ones (0::nat) 1) \<and>
   field (projr (mock_jets all_ones (0::nat) 1)) ''eta'' = Some (FloatCol [3])"
proof -
  let ?rows = "nd_rows (fst (rng_random all_ones (default_rng all_ones (0::nat) (Some 42)) [1]
                 (length JET_VARS)))"
  obtain a where a: "mock_jets all_ones (0::nat) 1 = Inr a"
    "field a ''eta'' = Some (FloatCol (map (\<lambda>r. f4 (f4 (f4 (r ! 1) - 1 / 2) * 6)) ?rows))"
    using mock_jets_ok [of all_ones 0 1] by auto
  have "length ?rows = 1" by simp
  then have "\<exists>r. ?rows = [r]" by (rule singleton_list)
  then obtain r where r: "?rows = [r]" by blast
  then have mem: "r \<in> set ?rows" by simp
  from rng_random_rows [OF mem] have "1 < length r" by (simp add: JET_VARS_def)
  then have "r ! 1 \<in> set r" by (rule nth_mem)
  with mem have "r ! 1 = (2 ^ 53 - 1) / 2 ^ 53" by (rule all_ones_rows)
  moreover have "f4 ((2 ^ 53 - 1) / 2 ^ 53) = 1" by (rule f4_near_one) simp_all
  ultimately have "f4 (r ! 1) = 1" by (simp only:)
  then have "f4 (f4 (f4 (r ! 1) - 1 / 2) * 6) = 3" by simp
  with a r show ?thesis by simp
qed

text \<open>
  C10. In the output of \<^verbatim>\<open>mock_jets\<close> the field \<open>n_tracks\<close> is 0 for every jet: the draw in
  \<open>[0, 1)\<close> is truncated to 0 by the conversion to \<open>i4\<close>, and no later statement assigns
  to the field.
\<close>

theorem mock_jets_n_tracks_zero:
  "\<exists>a. mock_jets G e n = Inr a \<and> field a ''n_tracks'' = Some (IntCol (replicate n 0))"
proof -
  let ?rows = "nd_rows (fst (rng_random G (default_rng G e (Some 42)) [n] (length JET_VARS)))"
  obtain a where a: "mock_jets G e n = Inr a"
    "field a ''n_tracks'' = Some (IntCol (map (\<lambda>r. trunc (r ! 6)) ?rows))"
    using mock_jets_ok [of G e n] by auto
  have zero: "trunc (r ! 6) = 0" if "r \<in> set ?rows" for r
  proof -
    from rng_random_rows [OF that]
    have "length r = length JET_VARS" and u: "\<forall>x\<in>set r. 0 \<le> x \<and> x < 1" by simp_all
    then have "6 < length r" by (simp add: JET_VARS_def)
    then have "r ! 6 \<in> set r" by (rule nth_mem)
    with u show ?thesis by (simp add: trunc_unit)
  qed
  have "map (\<lambda>r. trunc (r ! 6)) ?rows = map (\<lambda>r. 0) ?rows"
    by (rule map_cong) (simp_all add: zero)
  also have "\<dots> = replicate n 0" by (simp add: map_replicate_const)
  finally show ?thesis using a by simp
qed

theorem mock_jets_n_tracks_zero_witness:
  "\<exists>a. mock_jets lcg (0::nat) 1000 = Inr a \<and>
       field a ''n_tracks'' = Some (IntCol (replicate 1000 0))"
  using mock_jets_n_tracks_zero [of lcg 0 1000] .

section \<open>The claims about the score synthesizer\<close>

text \<open>
  C2. Whenever \<^verbatim>\<open>get_mock_scores\<close> returns an array for a label array of length \<open>N\<close>, the
  array has \<open>N\<close> records of 4 values, and in every record each value is non-negative and
  the values sum to 1 within \<open>2^(-23)\<close>: the record is the rounding to single precision
  of four non-negative doubles whose sum is 1. The arithmetic on doubles is over exact
  reals; the rounding error that remains is that of the conversion to \<open>f4\<close>.
\<close>

theorem get_mock_scores_rows:
  assumes "get_mock_scores G e labels is_xbb = Inr a" "i < length labels"
  shows "shape a = [length labels] \<and> length (record_at a i) = 4 \<and>
         (\<forall>v\<in>set (record_at a i). 0 \<le> v) \<and>
         \<bar>sum_list (record_at a i) - 1\<bar> \<le> 1 / 2 ^ 23 \<and>
         (\<exists>p. record_at a i = map f4 p \<and> (\<forall>v\<in>set p. 0 \<le> v) \<and> sum_list p = 1)"
  using scores_rows_aux [OF assms] by simp

theorem get_mock_scores_rows_witness:
  "\<exists>a. get_mock_scores lcg (0::nat) [0, 4, 4, 15] False = Inr a \<and> shape a = [4] \<and>
       length (record_at a 1) = 4 \<and> (\<forall>v\<in>set (record_at a 1). 0 \<le> v) \<and>
       \<bar>sum_list (record_at a 1) - 1\<bar> \<le> 1 / 2 ^ 23 \<and>
       (\<exists>p. record_at a 1 = map f4 p \<and> (\<forall>v\<in>set p. 0 \<le> v) \<and> sum_list p = 1)"
proof -
  have "set [0, 4, 4, 15] \<subseteq> dom (label_mapping False)" by (simp add: label_mapping_dom)
  from scores_succeed_known [OF this, of lcg 0]
  obtain a where a: "get_mock_scores lcg (0::nat) [0, 4, 4, 15] False = Inr a" by blast
  have "1 < length [0, 4, 4, 15 :: int]" by simp
  from get_mock_scores_rows [OF a this] a show ?thesis by simp
qed

text \<open>
  C5. When some label of the array has no entry in the active mapping, \<^verbatim>\<open>get_mock_scores\<close>
  returns no array: it fails with the \<open>KeyError\<close> of the dictionary lookup (the
  specification's \<open>UnknownLabelError\<close>), raised at the least label without an entry.
\<close>

theorem get_mock_scores_unknown_label:
  assumes "l \<in> set labels" "label_mapping is_xbb l = None"
  shows "\<exists>l'. l' \<in> set labels \<and> label_mapping is_xbb l' = None \<and>
           l' = Min {l \<in> set labels. label_mapping is_xbb l = None} \<and>
           get_mock_scores G e labels is_xbb = Inl (KeyError l')"
proof -
  let ?U = "{l \<in> set labels. label_mapping is_xbb l = None}"
  have "finite ?U" "?U \<noteq> {}" using assms by auto
  then have "Min ?U \<in> ?U" by (rule Min_in)
  with scores_fail_unknown [OF assms, of G e] show ?thesis by simp
qed

theorem get_mock_scores_unknown_label_witness:
  "get_mock_scores lcg (0::nat) [0, 7, 4] False = Inl (KeyError 7)"
proof -
  have u: "label_mapping False 7 = None"
    by (simp add: label_mapping_def label_dict_def means_def)
  have "(7::int) \<in> set [0, 7, 4]" by simp
  from get_mock_scores_unknown_label [OF this u, of lcg 0]
  obtain l' where l': "l' \<in> set [0, 7, 4]" "label_mapping False l' = None"
    "get_mock_scores lcg (0::nat) [0, 7, 4] False = Inl (KeyError l')" by blast
  from l'(1,2) have "l' = 7" by (auto simp: label_mapping_def label_dict_def means_def)
  with l'(3) show ?thesis by simp
qed

section \<open>The schema merger\<close>

lemma first_dup_None_iff: "first_dup xs = None \<longleftrightarrow> distinct xs"
  by (induction xs) auto

lemma first_dup_Some: "first_dup xs = Some m \<Longrightarrow> 1 < count_list xs m"
proof (induction xs)
  case Nil
  then show ?case by simp
next
  case (Cons a xs)
  show ?case
  proof (cases "a \<in> set xs")
    case True
    with Cons.prems have "m = a" by simp
    moreover from True have "count_list xs a \<noteq> 0" by (simp add: count_list_0_iff)
    ultimately show ?thesis by simp
  next
    case False
    with Cons show ?thesis by (auto split: if_splits)
  qed
qed

lemma shared_name_not_distinct:
  assumes "i < j" "j < length xs" "n \<in> set (names (xs ! i))" "n \<in> set (names (xs ! j))"
  shows "\<not> distinct (concat (map names xs))"
proof -
  from assms(1,2) have i: "i < length xs" by simp
  have xs: "xs = take j xs @ xs ! j # drop (Suc j) xs"
    using assms(2) by (rule id_take_nth_drop)
  have "i < length (take j xs)" using assms(1,2) by simp
  then have "take j xs ! i \<in> set (take j xs)" by (rule nth_mem)
  then have "xs ! i \<in> set (take j xs)" using assms(1) by simp
  with assms(3) have "n \<in> set (concat (map names (take j xs)))" by auto
  moreover from assms(4) have "n \<in> set (concat (map names (xs ! j # drop (Suc j) xs)))" by simp
  moreover have "concat (map names xs) =
      concat (map names (take j xs)) @ concat (map names (xs ! j # drop (Suc j) xs))"
    by (subst xs) (simp del: append_take_drop_id)
  ultimately show ?thesis by (simp only: distinct_append) blast
qed

lemma join_shape_mismatch:
  assumes "x \<in> set xs" "y \<in> set xs" "shape x \<noteq> shape y"
  shows "\<exists>s t. s \<noteq> t \<and> s \<in> shape ` set xs \<and> t \<in> shape ` set xs \<and>
           join_structured_arrays xs = Inl (ShapeMismatchError s t)"
proof -
  from assms(1) obtain a as where xs: "xs = a # as" by (cases xs) auto
  have "\<exists>b\<in>set as. shape b \<noteq> shape a"
  proof (rule ccontr)
    assume "\<not> (\<exists>b\<in>set as. shape b \<noteq> shape a)"
    with assms(1,2) xs have "shape x = shape a" "shape y = shape a" by auto
    with assms(3) show False by simp
  qed
  then have "find (\<lambda>b. shape b \<noteq> shape a) as \<noteq> None" by (auto simp: find_None_iff)
  then obtain b where b: "find (\<lambda>b. shape b \<noteq> shape a) as = Some b" by auto
  then have "b \<in> set as" "shape b \<noteq> shape a"
    by (auto simp: find_Some_iff)
  with b xs show ?thesis by (intro exI [of _ "shape a"] exI [of _ "shape b"]) auto
qed

lemma join_schema_conflict:
  assumes "\<forall>x\<in>set xs. \<forall>y\<in>set xs. shape x = shape y"
    and "i < j" "j < length xs" "n \<in> set (names (xs ! i))" "n \<in> set (names (xs ! j))"
  shows "\<exists>m. 1 < count_list (concat (map names xs)) m \<and>
           join_structured_arrays xs = Inl (SchemaConflictError m)"
proof -
  from assms(3) obtain a as where xs: "xs = a # as" by (cases xs) auto
  have mem: "a \<in> set xs" "set as \<subseteq> set xs" by (auto simp: xs)
  have "shape b = shape a" if "b \<in> set as" for b
    using assms(1) that mem by blast
  then have f: "find (\<lambda>b. shape b \<noteq> shape a) as = None"
    by (simp add: find_None_iff)
  from shared_name_not_distinct [OF assms(2-5)]
  have "first_dup (concat (map names xs)) \<noteq> None" by (simp add: first_dup_None_iff)
  then obtain m where m: "first_dup (concat (map names xs)) = Some m" by auto
  have "join_structured_arrays (a # as) = Inl (SchemaConflictError m)"
    using f m [unfolded xs] by (simp del: concat.simps list.map)
  with first_dup_Some [OF m] show ?thesis unfolding xs by blast
qed

text \<open>
  C8. The Schema Merger of the specification. When two of the inputs differ in shape, the
  merge fails with a \<open>ShapeMismatchError\<close> that names two different shapes of the inputs,
  for instance \<open>(10,)\<close> and \<open>(20,)\<close>. When the shapes agree and two inputs share a field
  name, it fails with a \<open>SchemaConflictError\<close> that names a field occurring more than once.
  In both cases no array is returned.
\<close>

theorem join_structured_arrays_errors:
  "(x \<in> set xs \<and> y \<in> set xs \<and> shape x \<noteq> shape y \<longrightarrow>
      (\<exists>s t. s \<noteq> t \<and> s \<in> shape ` set xs \<and> t \<in> shape ` set xs \<and>
             join_structured_arrays xs = Inl (ShapeMismatchError s t))) \<and>
   (shape a = [10] \<and> shape b = [20] \<longrightarrow>
      join_structured_arrays [a, b] = Inl (ShapeMismatchError [10] [20])) \<and>
   ((\<forall>x\<in>set xs. \<forall>y\<in>set xs. shape x = shape y) \<and> i < j \<and> j < length xs \<and>
    n \<in> set (names (xs ! i)) \<and> n \<in> set (names (xs ! j)) \<longrightarrow>
      (\<exists>m. 1 < count_list (concat (map names xs)) m \<and>
           join_structured_arrays xs = Inl (SchemaConflictError m)))"
proof (intro conjI impI)
  assume "x \<in> set xs \<and> y \<in> set xs \<and> shape x \<noteq> shape y"
  then show "\<exists>s t. s \<noteq> t \<and> s \<in> shape ` set xs \<and> t \<in> shape ` set xs \<and>
             join_structured_arrays xs = Inl (ShapeMismatchError s t)"
    using join_shape_mismatch [of x xs y] by blast
next
  assume "shape a = [10] \<and> shape b = [20]"
  then show "join_structured_arrays [a, b] = Inl (ShapeMismatchError [10] [20])"
    by simp
next
  assume "(\<forall>x\<in>set xs. \<forall>y\<in>set xs. shape x = shape y) \<and> i < j \<and> j < length xs \<and>
    n \<in> set (names (xs ! i)) \<and> n \<in> set (names (xs ! j))"
  then show "\<exists>m. 1 < count_list (concat (map names xs)) m \<and>
           join_structured_arrays xs = Inl (SchemaConflictError m)"
    using join_schema_conflict [of xs i j n] by blast
qed

theorem join_structured_arrays_errors_witness:
  "join_structured_arrays
     [\<lparr>shape = [10], columns = [(''pt'', FloatCol (replicate 10 0))]\<rparr>,
      \<lparr>shape = [20], columns = [(''eta'', FloatCol (replicate 20 0))]\<rparr>]
     = Inl (ShapeMismatchError [10] [20]) \<and>
   (\<exists>m. join_structured_arrays
     [\<lparr>shape = [10], columns = [(''pt'', FloatCol (replicate 10 0))]\<rparr>,
      \<lparr>shape = [10], columns = [(''eta'', FloatCol (replicate 10 0)),
                                 (''pt'', FloatCol (replicate 10 1))]\<rparr>]
     = Inl (SchemaConflictError m))"
proof -
  let ?A = "\<lparr>shape = [10], columns = [(''pt'', FloatCol (replicate 10 0))]\<rparr>"
  let ?B = "\<lparr>shape = [20], columns = [(''eta'', FloatCol (replicate 20 0))]\<rparr>"
  let ?C = "\<lparr>shape = [10], columns = [(''eta'', FloatCol (replicate 10 0)),
                                 (''pt'', FloatCol (replicate 10 1))]\<rparr>"
  note inst = join_structured_arrays_errors [of ?A "[?A, ?C]" ?A ?A ?B 0 1 "''pt''"]
  have h2: "shape ?A = [10] \<and> shape ?B = [20]" by simp
  have h3: "(\<forall>x\<in>set [?A, ?C]. \<forall>y\<in>set [?A, ?C]. shape x = shape y) \<and> (0::nat) < 1 \<and>
     1 < length [?A, ?C] \<and> ''pt'' \<in> set (names ([?A, ?C] ! 0)) \<and>
     ''pt'' \<in> set (names ([?A, ?C] ! 1))"
    by (simp add: names_def)
  from inst h2 have "join_structured_arrays [?A, ?B] = Inl (ShapeMismatchError [10] [20])"
    by blast
  moreover from inst h3 have "\<exists>m. join_structured_arrays [?A, ?C] = Inl (SchemaConflictError m)"
    by blast
  ultimately show ?thesis by blast
qed

section \<open>The dispersion scales\<close>

lemma assign_mask_nth_false:
  "length ms = length ss \<Longrightarrow> j < length ss \<Longrightarrow> \<not> ms ! j \<Longrightarrow>
   assign_mask ms vs ss ! j = ss ! j"
proof (induction ms vs ss arbitrary: j rule: assign_mask.induct)
  case (1 m ms vs s ss)
  then show ?case by (cases j) (auto split: list.splits)
qed simp_all

lemma assign_mask_nth_true:
  "length ms = length ss \<Longrightarrow> j < length ss \<Longrightarrow> ms ! j \<Longrightarrow>
   length (filter (\<lambda>m. m) ms) \<le> length vs \<Longrightarrow> assign_mask ms vs ss ! j \<in> set vs"
proof (induction ms vs ss arbitrary: j rule: assign_mask.induct)
  case (1 m ms vs s ss)
  show ?case
  proof (cases m)
    case True
    with "1.prems"(4) obtain v vs' where vs: "vs = v # vs'" by (cases vs) auto
    show ?thesis
    proof (cases j)
      case 0
      with True vs show ?thesis by simp
    next
      case (Suc j')
      with "1.prems" True vs have "assign_mask ms vs' ss ! j' \<in> set vs'"
        by (intro "1.IH"(1)) auto
      with True vs Suc show ?thesis by simp
    qed
  next
    case False
    with "1.prems"(3) obtain j' where j: "j = Suc j'" by (cases j) auto
    with "1.prems" False have "assign_mask ms vs ss ! j' \<in> set vs"
      by (intro "1.IH"(2)) auto
    with False j show ?thesis by simp
  qed
qed simp_all

lemma mask_count: "length (filter (\<lambda>m. m) (map (\<lambda>l. l = label) labels)) = count_list labels label"
  by (induction labels) auto

lemma scores_loop_trace:
  assumes "scores_loop G lm labels i pairs rng scores = Inr out"
    and "distinct (map fst pairs)" and "length scores = length labels" and "j < length labels"
    and "\<forall>p\<in>set pairs. snd p = count_list labels (fst p)"
  shows "(labels ! j \<notin> fst ` set pairs \<longrightarrow> out ! j = scores ! j) \<and>
         (\<forall>k<length pairs. labels ! j = fst (pairs ! k) \<longrightarrow>
            i + k < length scales \<and>
            (\<exists>g loc. lm (labels ! j) = Some loc \<and>
               out ! j \<in> set (fst (rng_normal G g loc (scales ! (i + k)) (snd (pairs ! k))))))"
  using assms
proof (induction pairs arbitrary: i rng scores)
  case Nil
  then show ?case by simp
next
  case (Cons p pairs)
  obtain label count where p: "p = (label, count)" by (cases p)
  from Cons.prems(1) obtain loc where loc: "lm label = Some loc"
    by (cases "lm label") (simp_all add: p)
  from Cons.prems(1) loc have i: "i < length scales"
    by (simp add: p py_index_def split: if_splits)
  let ?mask = "map (\<lambda>l. l = label) labels"
  let ?blk = "rng_normal G rng loc (scales ! i) count"
  let ?sc = "assign_mask ?mask (fst ?blk) scores"
  from Cons.prems(1) loc i
  have run: "scores_loop G lm labels (Suc i) pairs (snd ?blk) ?sc = Inr out"
    by (simp add: p py_index_def split_beta)
  from Cons.prems(2) have d: "distinct (map fst pairs)" and fresh: "label \<notin> fst ` set pairs"
    by (simp_all add: p)
  from Cons.prems(5) have cnt: "count = count_list labels label"
    and cs: "\<forall>p\<in>set pairs. snd p = count_list labels (fst p)"
    by (simp_all add: p)
  have len: "length ?sc = length labels" using Cons.prems(3) by simp
  note IH = Cons.IH [OF run d len Cons.prems(4) cs]
  have other: "out ! j = scores ! j" if "labels ! j \<notin> fst ` set (p # pairs)"
  proof -
    from that have ne: "labels ! j \<noteq> label" and "labels ! j \<notin> fst ` set pairs"
      by (simp_all add: p)
    with IH have "out ! j = ?sc ! j" by simp
    also have "\<dots> = scores ! j"
      using ne Cons.prems(3,4) by (intro assign_mask_nth_false) simp_all
    finally show ?thesis .
  qed
  have this_label: "i + 0 < length scales \<and>
      (\<exists>g loc. lm (labels ! j) = Some loc \<and>
         out ! j \<in> set (fst (rng_normal G g loc (scales ! (i + 0)) (snd ((p # pairs) ! 0)))))"
    if eq: "labels ! j = label"
  proof -
    from eq fresh IH have "out ! j = ?sc ! j" by simp
    moreover have mc: "length (filter (\<lambda>m. m) ?mask) \<le> length (fst ?blk)"
      unfolding mask_count by (simp add: cnt)
    have "?sc ! j \<in> set (fst ?blk)"
    proof (rule assign_mask_nth_true [OF _ _ _ mc])
      show "length ?mask = length scores" using Cons.prems(3) by simp
      show "j < length scores" using Cons.prems(3,4) by simp
      show "?mask ! j" using eq Cons.prems(4) by simp
    qed
    ultimately show ?thesis using i loc eq by (auto simp: p)
  qed
  show ?case
  proof (intro conjI impI allI)
    assume "labels ! j \<notin> fst ` set (p # pairs)"
    then show "out ! j = scores ! j" by (rule other)
  next
    fix k assume k: "k < length (p # pairs)" and eq: "labels ! j = fst ((p # pairs) ! k)"
    show "i + k < length scales"
    proof (cases k)
      case 0
      with i show ?thesis by simp
    next
      case (Suc k')
      with k eq IH show ?thesis by simp
    qed
    show "\<exists>g loc. lm (labels ! j) = Some loc \<and>
           out ! j \<in> set (fst (rng_normal G g loc (scales ! (i + k)) (snd ((p # pairs) ! k))))"
    proof (cases k)
      case 0
      with eq have "labels ! j = label" by (simp add: p)
      from this_label [OF this] 0 show ?thesis by simp
    next
      case (Suc k')
      with k eq IH show ?thesis by simp
    qed
  qed
qed

lemma scores_loop_index_error:
  assumes "pairs \<noteq> []" "\<forall>p\<in>set pairs. lm (fst p) \<noteq> None" "length scales < i + length pairs"
  shows "scores_loop G lm labels i pairs rng scores = Inl IndexError"
  using assms
proof (induction pairs arbitrary: i rng scores)
  case Nil
  then show ?case by simp
next
  case (Cons p pairs)
  obtain label count where p: "p = (label, count)" by (cases p)
  from Cons.prems(2) obtain loc where loc: "lm label = Some loc" by (auto simp: p)
  show ?case
  proof (cases "i < length scales")
    case False
    with loc show ?thesis by (simp add: p py_index_def)
  next
    case True
    with Cons.prems(3) have "pairs \<noteq> []" by auto
    moreover from Cons.prems have "\<forall>p\<in>set pairs. lm (fst p) \<noteq> None"
      "length scales < Suc i + length pairs" by simp_all
    ultimately have "\<And>rng scores. scores_loop G lm labels (Suc i) pairs rng scores = Inl IndexError"
      by (rule Cons.IH)
    with loc True show ?thesis by (simp add: p py_index_def split_beta)
  qed
qed

lemma unique_counts_sel [simp]:
  "map fst (unique_counts labels) = np_unique labels"
  "length (unique_counts labels) = length (np_unique labels)"
  "k < length (np_unique labels) \<Longrightarrow>
     unique_counts labels ! k = (np_unique labels ! k, count_list labels (np_unique labels ! k))"
  by (simp_all add: unique_counts_def comp_def)

lemma raw_scores_distinct_bound:
  assumes "raw_scores G e labels is_xbb = Inr scores"
  shows "length (np_unique labels) \<le> length scales"
proof -
  from raw_scores_Inr_known [OF assms]
  have "\<forall>p\<in>set (unique_counts labels). label_mapping is_xbb (fst p) \<noteq> None"
    by (auto simp: unique_counts_def)
  then have "filter (\<lambda>p. label_mapping is_xbb (fst p) \<noteq> None) (unique_counts labels)
      = unique_counts labels"
    by (simp only: filter_True)
  with known_unique_bound [of is_xbb labels] show ?thesis by simp
qed

text \<open>
  C6, as the code has it. \<open>scales[i]\<close> is a plain index into the list \<open>[1, 2.5, 5, 1]\<close>,
  not a cyclic one. A call of \<^verbatim>\<open>get_mock_scores\<close> gets past its loop only when every label
  has an entry in the mapping, so with at most 4 distinct values; then the rows of the
  \<open>k\<close>-th distinct label value, in ascending order and counted from 0, are rows of a
  normal block drawn with the mean vector of that label and the scale \<open>scales[k]\<close>.
\<close>

theorem raw_scores_scale_by_rank:
  assumes "raw_scores G e labels is_xbb = Inr scores"
    and "k < length (np_unique labels)" and "j < length labels"
    and "labels ! j = np_unique labels ! k"
  shows "length (np_unique labels) \<le> length scales \<and> k < length scales \<and>
         (\<exists>g loc. label_mapping is_xbb (labels ! j) = Some loc \<and>
            nd_rows scores ! j \<in>
              set (fst (rng_normal G g loc (scales ! k) (count_list labels (labels ! j)))))"
proof -
  let ?z = "np_zeros [length labels] (length (label_dict is_xbb))"
  from assms(1) obtain rows where
    run: "scores_loop G (label_mapping is_xbb) labels 0 (unique_counts labels)
            (default_rng G e (Some 42)) (nd_rows ?z) = Inr rows"
    and arr: "scores = ?z\<lparr>nd_rows := rows\<rparr>"
    by (auto simp: raw_scores_def Let_def bindE_def split: sum.splits)
  have "distinct (map fst (unique_counts labels))" by simp
  moreover have "length (nd_rows ?z) = length labels" by (simp add: np_zeros_def)
  moreover have "\<forall>p\<in>set (unique_counts labels). snd p = count_list labels (fst p)"
    by (auto simp: unique_counts_def)
  ultimately have tr: "\<forall>k<length (unique_counts labels).
      labels ! j = fst (unique_counts labels ! k) \<longrightarrow>
        0 + k < length scales \<and>
        (\<exists>g loc. label_mapping is_xbb (labels ! j) = Some loc \<and>
           rows ! j \<in> set (fst (rng_normal G g loc (scales ! (0 + k))
                                   (snd (unique_counts labels ! k)))))"
    using scores_loop_trace [OF run _ _ assms(3)] by blast
  from assms(2) have "k < length (unique_counts labels)" by simp
  moreover from assms(2,4) have "labels ! j = fst (unique_counts labels ! k)" by simp
  ultimately have "0 + k < length scales \<and>
        (\<exists>g loc. label_mapping is_xbb (labels ! j) = Some loc \<and>
           rows ! j \<in> set (fst (rng_normal G g loc (scales ! (0 + k))
                                   (snd (unique_counts labels ! k)))))"
    using tr by blast
  with assms(2,4) raw_scores_distinct_bound [OF assms(1)] show ?thesis
    by (simp add: arr)
qed

theorem raw_scores_scale_by_rank_witness:
  "\<exists>scores. raw_scores lcg (0::nat) [4, 0, 4] False = Inr scores \<and>
     (1::nat) < length (np_unique [4, 0, 4]) \<and> (0::nat) < length [4, 0, 4 :: int] \<and>
     [4, 0, 4] ! 0 = np_unique [4, 0, 4] ! 1 \<and>
     (\<exists>g loc. label_mapping False 4 = Some loc \<and>
        nd_rows scores ! 0 \<in>
          set (fst (rng_normal lcg g loc (scales ! 1) (count_list [4, 0, 4 :: int] 4))))"
proof -
  have "set [4, 0, 4] \<subseteq> dom (label_mapping False)" by (simp add: label_mapping_dom)
  from raw_scores_known [OF this, of lcg 0]
  obtain scores where s: "raw_scores lcg (0::nat) [4, 0, 4] False = Inr scores" by blast
  have u: "np_unique [4, 0, 4] = [0, 4]" by (simp add: np_unique_def)
  have h: "(1::nat) < length (np_unique [4, 0, 4])" "(0::nat) < length [4, 0, 4 :: int]"
    "[4, 0, 4] ! 0 = np_unique [4, 0, 4] ! 1"
    by (simp_all add: u)
  from raw_scores_scale_by_rank [OF s h] s h show ?thesis by simp
qed

text \<open>
  C6 as stated fails. Five distinct label values are not handled: the fifth has no entry
  in the mapping and the call fails. And the list of scales is not cycled: were the
  fifth value given an entry, the loop would fail at \<open>scales[4]\<close> with an \<open>IndexError\<close>.
\<close>

theorem scales_not_cycled_counterexample:
  "get_mock_scores lcg (0::nat) [0, 4, 5, 15, 16] False = Inl (KeyError 16) \<and>
   scores_loop lcg
     (map_of [(0, [2, 0, 0, 0]), (4, [0, 1, 0, 0]), (5, [0, 0, 7 / 2, 0]), (15, [0, 0, 0, 1]),
              (16, [0, 0, 0, 0])])
     [0, 4, 5, 15, 16] 0 (unique_counts [0, 4, 5, 15, 16]) (0::nat)
     (replicate 5 [0, 0, 0, 0]) = Inl IndexError"
proof -
  have u: "label_mapping False 16 = None"
    by (simp add: label_mapping_def label_dict_def means_def)
  have "{l \<in> set [0, 4, 5, 15, 16]. label_mapping False l = None} = {16}"
    by (auto simp: label_mapping_def label_dict_def means_def)
  then have "Min {l \<in> set [0, 4, 5, 15, 16]. label_mapping False l = None} = 16" by simp
  moreover have "(16::int) \<in> set [0, 4, 5, 15, 16]" by simp
  ultimately have a: "get_mock_scores lcg (0::nat) [0, 4, 5, 15, 16] False = Inl (KeyError 16)"
    using scores_fail_unknown [OF _ u, of "[0, 4, 5, 15, 16]" lcg 0] by simp
  have n: "np_unique [0, 4, 5, 15, 16] = [0, 4, 5, 15, 16]" by (simp add: np_unique_def)
  have b: "scores_loop lcg
     (map_of [(0, [2, 0, 0, 0]), (4, [0, 1, 0, 0]), (5, [0, 0, 7 / 2, 0]), (15, [0, 0, 0, 1]),
              (16, [0, 0, 0, 0])])
     [0, 4, 5, 15, 16] 0 (unique_counts [0, 4, 5, 15, 16]) (0::nat)
     (replicate 5 [0, 0, 0, 0]) = Inl IndexError"
    by (rule scores_loop_index_error) (simp_all add: unique_counts_def n scales_def)
  from a b show ?thesis by simp
qed

section \<open>The generation entry point\<close>















end
